theory Spec2Isabelle
  imports Main "HOL-Library.Word" "HOL-Library.List_Lexorder" "HOL-Library.Sublist"
    "HOL-Library.AList"
begin

section \<open>Bytes, versions, results\<close>

text \<open>
  Go's \<open>[]byte\<close> is a list of 8-bit words, \<open>int64\<close> and \<open>uint64\<close> are 64-bit words
  (read signed with \<open>sint\<close>, \<open><s\<close>, \<open><=s\<close>; unsigned with \<open>unat\<close>, \<open><\<close>, \<open>\<le>\<close>).
  A \<open>nil\<close> slice and an empty one are both \<open>[]\<close> wherever the code only takes
  \<open>len\<close> or converts to \<open>string\<close>. Lists of bytes are ordered lexicographically,
  which is \<open>bytes.Compare\<close>.

  A method returns its result together with the receiver's state after the call. A
  panic is the result \<open>Panic msg\<close>; the state beside it is the state at the moment of
  the panic (what a recovering caller would find).
\<close>

type_synonym byte = "8 word"
type_synonym bytes = "byte list"
type_synonym int64 = "64 word"
type_synonym uint64 = "64 word"

datatype 'a res = Return 'a | Panic string

definition MaxInt64 :: int64 where
  "MaxInt64 = 0x7FFFFFFFFFFFFFFF"

text \<open>Running a callback over a sequence: a panic stops the loop where it happens.\<close>

fun forEach :: "('x \<Rightarrow> 's \<Rightarrow> unit res \<times> 's) \<Rightarrow> 'x list \<Rightarrow> 's \<Rightarrow> unit res \<times> 's" where
  "forEach f [] s = (Return (), s)"
| "forEach f (x # xs) s =
     (case f x s of
        (Return _, s') \<Rightarrow> forEach f xs s'
      | (Panic m, s') \<Rightarrow> (Panic m, s'))"

section \<open>Key codec\<close>

text \<open>
  Modelled from the spec: the type \<open>KeyFormat\<close> with \<open>NewKeyFormat\<close>, \<open>Key\<close>,
  \<open>KeyBytes\<close> and \<open>Scan\<close> is used by nodedb.go but declared in another file. The spec
  (4.1 and 6) fixes the layout: one prefix byte, every integer as 8 bytes big-endian
  (the two's-complement bit pattern of the \<open>int64\<close>), a hash as its raw bytes.
  \<open>Scan\<close> reads the integer segments back from their fixed offsets.
\<close>

fun be_bytes :: "nat \<Rightarrow> nat \<Rightarrow> bytes" where
  "be_bytes 0 n = []"
| "be_bytes (Suc k) n = of_nat (n div 256 ^ k) # be_bytes k (n mod 256 ^ k)"

definition be_value :: "bytes \<Rightarrow> nat" where
  "be_value bs = foldl (\<lambda>n b. n * 256 + unat b) 0 bs"

definition int64Size :: nat where
  "int64Size = 8"

definition be64 :: "int64 \<Rightarrow> bytes" where
  "be64 v = be_bytes int64Size (unat v)"

definition int64_of_be :: "bytes \<Rightarrow> int64" where
  "int64_of_be bs = of_nat (be_value bs)"

datatype karg = I64 int64 | Raw bytes

fun format_arg :: "karg \<Rightarrow> bytes" where
  "format_arg (I64 v) = be64 v"
| "format_arg (Raw b) = b"

type_synonym KeyFormat = byte

definition Key :: "KeyFormat \<Rightarrow> karg list \<Rightarrow> bytes" where
  "Key kf args = kf # concat (map format_arg args)"

definition KeyBytes :: "KeyFormat \<Rightarrow> bytes list \<Rightarrow> bytes" where
  "KeyBytes kf segments = kf # concat segments"

text \<open>\<open>Scan_int64 key i\<close> is the value \<open>Scan\<close> stores through its \<open>i\<close>-th \<open>*int64\<close>
  argument (counted from 0), when the segments before it are integers too.\<close>

definition Scan_int64 :: "bytes \<Rightarrow> nat \<Rightarrow> int64" where
  "Scan_int64 key i = int64_of_be (take int64Size (drop (1 + int64Size * i) key))"

text \<open>The three key families of nodedb.go: \<open>n<hash>\<close>,
  \<open>o<last-version><first-version><hash>\<close>, \<open>r<version>\<close>.\<close>

definition nodeKeyFormat :: KeyFormat where
  "nodeKeyFormat = 0x6E"

definition orphanKeyFormat :: KeyFormat where
  "orphanKeyFormat = 0x6F"

definition rootKeyFormat :: KeyFormat where
  "rootKeyFormat = 0x72"

definition nodeKey :: "bytes \<Rightarrow> bytes" where
  "nodeKey h = KeyBytes nodeKeyFormat [h]"

definition orphanKey :: "int64 \<Rightarrow> int64 \<Rightarrow> bytes \<Rightarrow> bytes" where
  "orphanKey fromVersion toVersion h =
     Key orphanKeyFormat [I64 toVersion, I64 fromVersion, Raw h]"

definition rootKey :: "int64 \<Rightarrow> bytes" where
  "rootKey version = Key rootKeyFormat [I64 version]"

section \<open>Backing store and batch\<close>

text \<open>
  The backing store (\<open>dbm.DB\<close>) is an external ordered key/value engine; its contract
  is the one of spec section 6. A store is an association list; the entry for a key is
  the first pair with that key, and iteration is over the distinct keys in ascending
  byte order. \<open>ReverseIterator lo hi\<close> runs over the keys \<open>lo \<le> k < hi\<close> downwards,
  \<open>IteratePrefix\<close> over the keys that start with the prefix, upwards. A batch is
  the sequence of its operations; \<open>Write\<close> applies them in order to the store whose
  \<open>NewBatch\<close> created the batch.
\<close>

type_synonym DB = "(bytes \<times> bytes) list"

definition db_Get :: "DB \<Rightarrow> bytes \<Rightarrow> bytes option" where
  "db_Get d k = map_of d k"

definition db_entries :: "DB \<Rightarrow> (bytes \<times> bytes) list" where
  "db_entries d = sort_key fst (AList.clearjunk d)"

definition ReverseIterator :: "DB \<Rightarrow> bytes \<Rightarrow> bytes \<Rightarrow> (bytes \<times> bytes) list" where
  "ReverseIterator d lo hi = rev (filter (\<lambda>(k, v). lo \<le> k \<and> k < hi) (db_entries d))"

definition IteratePrefix :: "DB \<Rightarrow> bytes \<Rightarrow> (bytes \<times> bytes) list" where
  "IteratePrefix d p = filter (\<lambda>(k, v). prefix p k) (db_entries d)"

datatype batch_op = Set bytes bytes | Delete bytes

fun apply_op :: "DB \<Rightarrow> batch_op \<Rightarrow> DB" where
  "apply_op d (Set k v) = AList.update k v d"
| "apply_op d (Delete k) = AList.delete k d"

type_synonym Batch = "batch_op list"

definition batch_Set :: "bytes \<Rightarrow> bytes \<Rightarrow> Batch \<Rightarrow> Batch" where
  "batch_Set k v b = b @ [Set k v]"

definition batch_Delete :: "bytes \<Rightarrow> Batch \<Rightarrow> Batch" where
  "batch_Delete k b = b @ [Delete k]"

definition batch_Write :: "Batch \<Rightarrow> DB \<Rightarrow> DB" where
  "batch_Write b d = foldl apply_op d b"

section \<open>Nodes and the LRU queue\<close>

text \<open>
  Of a \<open>Node\<close> the store reads and writes the hash (\<open>None\<close> is \<open>nil\<close>) and the two
  persistence flags; the rest of the struct is the field \<open>content\<close>. The node codec
  (\<open>MakeNode\<close>, \<open>writeBytes\<close>) is a parameter of the operations that call it.

  The store and its callers hold nodes as \<open>*Node\<close>: the queue of the cache, the map
  \<open>memNodes\<close> and the caller of \<open>SaveNode\<close> share one object, and \<open>node.persisted = true\<close>
  written through one pointer is read through the others. A \<open>*Node\<close> is therefore an
  address (\<open>ptr\<close>) and the objects are in a memory, the list \<open>nodes\<close> of the store record
  below: address \<open>p\<close> is the node \<open>nodes ! p\<close>. The memory grows at its end (\<open>newNode\<close>,
  for \<open>&Node{...}\<close>) and is never cut, so an address, once the address of a node, stays
  one. A pointer that is not the address of a node stands for \<open>nil\<close>: the exported methods
  that are handed a \<open>*Node\<close> panic on it where the source first reads a field through it.

  \<open>container/list\<close>: a queue of elements from front to back. An element is a value (a
  \<open>*Node\<close>) with an identity; \<open>allocated\<close> counts the elements ever pushed and numbers
  the next one.
\<close>

record 'a Node =
  hash :: "bytes option"
  persisted :: bool
  persistedMem :: bool
  content :: 'a

definition string_of :: "bytes option \<Rightarrow> bytes" where
  "string_of h = (case h of None \<Rightarrow> [] | Some b \<Rightarrow> b)"

type_synonym ptr = nat

type_synonym Element = "nat \<times> ptr"

record List =
  elems :: "Element list"
  allocated :: nat

definition list_New :: List where
  "list_New = \<lparr>elems = [], allocated = 0\<rparr>"

definition Len :: "List \<Rightarrow> nat" where
  "Len l = length (elems l)"

definition Front :: "List \<Rightarrow> Element option" where
  "Front l = (case elems l of [] \<Rightarrow> None | e # _ \<Rightarrow> Some e)"

definition PushBack :: "ptr \<Rightarrow> List \<Rightarrow> Element \<times> List" where
  "PushBack v l =
     (let e = (allocated l, v)
      in (e, \<lparr>elems = elems l @ [e], allocated = Suc (allocated l)\<rparr>))"

definition Remove :: "Element \<Rightarrow> List \<Rightarrow> List" where
  "Remove e l = l\<lparr>elems := filter (\<lambda>x. x \<noteq> e) (elems l)\<rparr>"

definition MoveToBack :: "Element \<Rightarrow> List \<Rightarrow> List" where
  "MoveToBack e l =
     (if e \<in> set (elems l) then l\<lparr>elems := filter (\<lambda>x. x \<noteq> e) (elems l) @ [e]\<rparr> else l)"

section \<open>The two stores\<close>

text \<open>
  \<open>nodeDB2\<close> (two locks) and \<open>nodeDB\<close> (one lock, with the memory tier and the
  maximum cache size). The fields of \<open>nodeDB2\<close> are fields of \<open>nodeDB\<close> as well, so
  \<open>nodeDB\<close> extends the record, and a method whose body is the same in both files is
  defined once, on the common part. The mutexes are left out: every method runs alone.

  In \<open>nodeDB2\<close> every batch comes from \<open>db.NewBatch()\<close>. In \<open>nodeDB\<close> the batch
  comes from \<open>db\<close> or from \<open>dbMem\<close>; \<open>batchOf\<close> records which store created the
  current batch (\<open>Dropped\<close>: a memory store that \<open>ResetMemNodes\<close> has replaced since).
  \<open>dbMem\<close> and \<open>memNodes\<close> are \<open>None\<close> when \<open>nil\<close>, as \<open>NewNodeDB3\<close> leaves them.

  \<open>nodes\<close> is the memory of the \<open>Node\<close> objects, not a field of the Go struct: it is
  carried in the record so that a method that writes through a \<open>*Node\<close> returns the
  memory with the store. A new store starts with no node in the memory.
\<close>

datatype store = Disk | Mem | Dropped

record 'a nodeDB2 =
  db :: DB
  batch :: Batch
  latestVersion :: int64
  nodeCache :: "bytes \<rightharpoonup> Element"
  nodeCacheSize :: int
  nodeCacheQueue :: List
  getLeafValueCb :: "(bytes \<Rightarrow> bytes) option"
  nodes :: "'a Node list"

record 'a nodeDB = "'a nodeDB2" +
  dbMem :: "DB option"
  batchOf :: store
  memNodes :: "(bytes \<rightharpoonup> ptr) option"
  nodeMaxCacheSize :: uint64
  nodeCacheOnlyFlushOnSave :: bool

definition NewNodeDB2 :: "DB \<Rightarrow> int \<Rightarrow> (bytes \<Rightarrow> bytes) option \<Rightarrow> 'a nodeDB2" where
  "NewNodeDB2 d cacheSize cb =
     \<lparr>db = d, batch = [], latestVersion = 0, nodeCache = Map.empty,
      nodeCacheSize = cacheSize, nodeCacheQueue = list_New, getLeafValueCb = cb, nodes = []\<rparr>"

definition NewNodeDB :: "DB \<Rightarrow> int \<Rightarrow> (bytes \<Rightarrow> bytes) option \<Rightarrow> 'a nodeDB" where
  "NewNodeDB d cacheSize cb =
     \<lparr>db = d, batch = [], latestVersion = 0, nodeCache = Map.empty,
      nodeCacheSize = cacheSize, nodeCacheQueue = list_New, getLeafValueCb = cb, nodes = [],
      dbMem = Some [], batchOf = Disk, memNodes = Some Map.empty, nodeMaxCacheSize = 0,
      nodeCacheOnlyFlushOnSave = False\<rparr>"

definition NewNodeDB3 ::
  "DB \<Rightarrow> uint64 \<Rightarrow> uint64 \<Rightarrow> bool \<Rightarrow> (bytes \<Rightarrow> bytes) option \<Rightarrow> 'a nodeDB" where
  "NewNodeDB3 d minCacheSize maxCacheSize onlyFlushOnSave cb =
     \<lparr>db = d, batch = [], latestVersion = 0, nodeCache = Map.empty,
      nodeCacheSize = sint minCacheSize, nodeCacheQueue = list_New, getLeafValueCb = cb,
      nodes = [], dbMem = None, batchOf = Disk, memNodes = None, nodeMaxCacheSize = maxCacheSize,
      nodeCacheOnlyFlushOnSave = onlyFlushOnSave\<rparr>"

section \<open>Reading and writing through a pointer\<close>

text \<open>\<open>newNode n\<close> is \<open>&Node{...}\<close> with the fields of \<open>n\<close>; \<open>isNode p\<close>, the pointer is
  not \<open>nil\<close>; \<open>nodeAt p\<close> is \<open>*p\<close>, and \<open>setNode p f\<close> the assignment of the fields that
  \<open>f\<close> changes.\<close>

definition newNode ::
  "'a Node \<Rightarrow> ('a, 'z) nodeDB2_scheme \<Rightarrow> ptr \<times> ('a, 'z) nodeDB2_scheme" where
  "newNode n ndb = (length (nodes ndb), ndb\<lparr>nodes := nodes ndb @ [n]\<rparr>)"

definition isNode :: "ptr \<Rightarrow> ('a, 'z) nodeDB2_scheme \<Rightarrow> bool" where
  "isNode p ndb = (p < length (nodes ndb))"

definition nodeAt :: "ptr \<Rightarrow> ('a, 'z) nodeDB2_scheme \<Rightarrow> 'a Node" where
  "nodeAt p ndb = nodes ndb ! p"

definition setNode ::
  "ptr \<Rightarrow> ('a Node \<Rightarrow> 'a Node) \<Rightarrow> ('a, 'z) nodeDB2_scheme \<Rightarrow> ('a, 'z) nodeDB2_scheme" where
  "setNode p f ndb = ndb\<lparr>nodes := (nodes ndb)[p := f (nodes ndb ! p)]\<rparr>"

section \<open>Methods with the same body in both stores\<close>

definition andThen :: "unit res \<times> 's \<Rightarrow> ('s \<Rightarrow> 'b res \<times> 's) \<Rightarrow> 'b res \<times> 's" where
  "andThen r f = (case r of (Return _, s) \<Rightarrow> f s | (Panic m, s) \<Rightarrow> (Panic m, s))"

definition Has :: "bytes \<Rightarrow> ('a, 'z) nodeDB2_scheme \<Rightarrow> bool" where
  "Has h ndb = (db_Get (db ndb) (nodeKey h) \<noteq> None)"

definition saveOrphan ::
  "bytes \<Rightarrow> int64 \<Rightarrow> int64 \<Rightarrow> ('a, 'z) nodeDB2_scheme \<Rightarrow> unit res \<times> ('a, 'z) nodeDB2_scheme" where
  "saveOrphan h fromVersion toVersion ndb =
     (if toVersion <s fromVersion
      then (Panic ''Orphan expires before it comes alive'', ndb)
      else let key = orphanKey fromVersion toVersion h
           in (Return (), ndb\<lparr>batch := batch_Set key h (batch ndb)\<rparr>))"

definition getPreviousVersioni :: "int64 \<Rightarrow> DB \<Rightarrow> int64" where
  "getPreviousVersioni version d =
     (case ReverseIterator d (Key rootKeyFormat [I64 1]) (Key rootKeyFormat [I64 version]) of
        [] \<Rightarrow> 0
      | (k, v) # _ \<Rightarrow> Scan_int64 k 0)"

definition getPreviousVersion :: "int64 \<Rightarrow> ('a, 'z) nodeDB2_scheme \<Rightarrow> int64" where
  "getPreviousVersion version ndb = getPreviousVersioni version (db ndb)"

definition getLatestVersion ::
  "('a, 'z) nodeDB2_scheme \<Rightarrow> int64 \<times> ('a, 'z) nodeDB2_scheme" where
  "getLatestVersion ndb =
     (let ndb' = (if latestVersion ndb = 0
                  then ndb\<lparr>latestVersion := getPreviousVersion MaxInt64 ndb\<rparr>
                  else ndb)
      in (latestVersion ndb', ndb'))"

definition updateLatestVersion ::
  "int64 \<Rightarrow> ('a, 'z) nodeDB2_scheme \<Rightarrow> ('a, 'z) nodeDB2_scheme" where
  "updateLatestVersion version ndb =
     (if latestVersion ndb <s version then ndb\<lparr>latestVersion := version\<rparr> else ndb)"

definition resetLatestVersion ::
  "int64 \<Rightarrow> ('a, 'z) nodeDB2_scheme \<Rightarrow> ('a, 'z) nodeDB2_scheme" where
  "resetLatestVersion version ndb = ndb\<lparr>latestVersion := version\<rparr>"

definition deleteRoot ::
  "int64 \<Rightarrow> bool \<Rightarrow> ('a, 'z) nodeDB2_scheme \<Rightarrow> unit res \<times> ('a, 'z) nodeDB2_scheme" where
  "deleteRoot version checkLatestVersion ndb =
     (if checkLatestVersion
      then (case getLatestVersion ndb of
              (latest, ndb1) \<Rightarrow>
                if version = latest
                then (Panic ''Tried to delete latest version'', ndb1)
                else (Return (), ndb1\<lparr>batch := batch_Delete (rootKey version) (batch ndb1)\<rparr>))
      else (Return (), ndb\<lparr>batch := batch_Delete (rootKey version) (batch ndb)\<rparr>))"

definition uncacheNode :: "bytes \<Rightarrow> ('a, 'z) nodeDB2_scheme \<Rightarrow> ('a, 'z) nodeDB2_scheme" where
  "uncacheNode h ndb =
     (case nodeCache ndb h of
        Some elem \<Rightarrow>
          ndb\<lparr>nodeCacheQueue := Remove elem (nodeCacheQueue ndb),
              nodeCache := (nodeCache ndb)(h := None)\<rparr>
      | None \<Rightarrow> ndb)"

definition traversePrefix ::
  "bytes \<Rightarrow> (bytes \<times> bytes \<Rightarrow> ('a, 'z) nodeDB2_scheme \<Rightarrow> unit res \<times> ('a, 'z) nodeDB2_scheme)
   \<Rightarrow> ('a, 'z) nodeDB2_scheme \<Rightarrow> unit res \<times> ('a, 'z) nodeDB2_scheme" where
  "traversePrefix p fn ndb = forEach fn (IteratePrefix (db ndb) p) ndb"

definition traverseOrphansVersion ::
  "int64 \<Rightarrow> (bytes \<times> bytes \<Rightarrow> ('a, 'z) nodeDB2_scheme \<Rightarrow> unit res \<times> ('a, 'z) nodeDB2_scheme)
   \<Rightarrow> ('a, 'z) nodeDB2_scheme \<Rightarrow> unit res \<times> ('a, 'z) nodeDB2_scheme" where
  "traverseOrphansVersion version fn ndb = traversePrefix (Key orphanKeyFormat [I64 version]) fn ndb"

text \<open>The closure that \<open>deleteOrphans\<close> (nodeDB2) and \<open>deleteOrphansWithPredecessor\<close>
  (nodeDB) pass to \<open>traverseOrphansVersion\<close>; the two bodies are the same.\<close>

definition deleteOrphanEntry ::
  "int64 \<Rightarrow> bytes \<times> bytes \<Rightarrow> ('a, 'z) nodeDB2_scheme \<Rightarrow> unit res \<times> ('a, 'z) nodeDB2_scheme" where
  "deleteOrphanEntry predecessor kv ndb =
     (case kv of (key, h) \<Rightarrow>
        let toVersion = Scan_int64 key 0;
            fromVersion = Scan_int64 key 1;
            ndb1 = ndb\<lparr>batch := batch_Delete key (batch ndb)\<rparr>
        in if predecessor <s fromVersion \<or> fromVersion = toVersion
           then (Return (),
                 uncacheNode h (ndb1\<lparr>batch := batch_Delete (nodeKey h) (batch ndb1)\<rparr>))
           else saveOrphan h fromVersion predecessor ndb1)"

datatype error = MustSaveConsecutive int64 int64

definition saveRoot ::
  "bytes \<Rightarrow> int64 \<Rightarrow> ('a, 'z) nodeDB2_scheme \<Rightarrow> error option \<times> ('a, 'z) nodeDB2_scheme" where
  "saveRoot h version ndb =
     (case getLatestVersion ndb of
        (latest, ndb1) \<Rightarrow>
          if version \<noteq> latest + 1
          then (case getLatestVersion ndb1 of
                  (latest', ndb2) \<Rightarrow> (Some (MustSaveConsecutive (latest' + 1) version), ndb2))
          else let key = rootKey version;
                   ndb2 = ndb1\<lparr>batch := batch_Set key h (batch ndb1)\<rparr>
               in (None, updateLatestVersion version ndb2))"

definition SaveRoot ::
  "ptr \<Rightarrow> int64 \<Rightarrow> ('a, 'z) nodeDB2_scheme
   \<Rightarrow> error option res \<times> ('a, 'z) nodeDB2_scheme" where
  "SaveRoot root version ndb =
     (if \<not> isNode root ndb then (Panic ''nil pointer dereference'', ndb)
      else if length (string_of (hash (nodeAt root ndb))) = 0
      then (Panic ''Hash should not be empty'', ndb)
      else (case saveRoot (string_of (hash (nodeAt root ndb))) version ndb of
              (e, ndb') \<Rightarrow> (Return e, ndb')))"

definition SaveEmptyRoot ::
  "int64 \<Rightarrow> ('a, 'z) nodeDB2_scheme \<Rightarrow> error option \<times> ('a, 'z) nodeDB2_scheme" where
  "SaveEmptyRoot version ndb = saveRoot [] version ndb"

text \<open>The three statements that drop the front of the queue, as \<open>cacheNode\<close> and
  \<open>FlushCache\<close> write them. \<open>Front\<close> of an empty queue is \<open>nil\<close>, and \<open>Remove(nil)\<close>
  dereferences it. The value of an element of the queue is the address of a node:
  \<open>cacheNode\<close> is the only method that pushes, and \<open>GetNode\<close> and \<open>SaveNode\<close> call it
  with a node they have read before.\<close>

definition evictOldest ::
  "('a, 'z) nodeDB2_scheme \<Rightarrow> unit res \<times> ('a, 'z) nodeDB2_scheme" where
  "evictOldest ndb =
     (case Front (nodeCacheQueue ndb) of
        None \<Rightarrow> (Panic ''nil pointer dereference'', ndb)
      | Some oldest \<Rightarrow>
          (Return (),
           ndb\<lparr>nodeCacheQueue := Remove oldest (nodeCacheQueue ndb),
               nodeCache := (nodeCache ndb)(string_of (hash (nodeAt (snd oldest) ndb)) := None)\<rparr>))"

section \<open>nodeDB2: the methods of the two-lock store\<close>

text \<open>A method of \<open>nodeDB2\<close> that differs from its namesake of \<open>nodeDB\<close> carries the
  suffix \<open>2\<close>. The codec functions \<open>MakeNode\<close> and \<open>writeBytes\<close> return an error
  (\<open>Inl\<close>) or their result (\<open>Inr\<close>); the node that \<open>MakeNode\<close> decodes is a new object,
  which \<open>GetNode\<close> places in the memory before it writes the hash and the flag into it.
  \<open>getCachedNode\<close> returns \<open>nil\<close> (\<open>None\<close>) for a hash that is not in the cache; the value
  of an element of the queue is never \<open>nil\<close>.\<close>

definition getCachedNode ::
  "bytes \<Rightarrow> ('a, 'z) nodeDB2_scheme \<Rightarrow> ptr option \<times> ('a, 'z) nodeDB2_scheme" where
  "getCachedNode h ndb =
     (case nodeCache ndb h of
        Some elem \<Rightarrow>
          (Some (snd elem), ndb\<lparr>nodeCacheQueue := MoveToBack elem (nodeCacheQueue ndb)\<rparr>)
      | None \<Rightarrow> (None, ndb))"

definition cacheNode2 :: "ptr \<Rightarrow> 'a nodeDB2 \<Rightarrow> unit res \<times> 'a nodeDB2" where
  "cacheNode2 node ndb =
     (case PushBack node (nodeCacheQueue ndb) of
        (elem, q) \<Rightarrow>
          let ndb1 = ndb\<lparr>nodeCacheQueue := q,
                        nodeCache := (nodeCache ndb)(string_of (hash (nodeAt node ndb)) \<mapsto> elem)\<rparr>
          in if nodeCacheSize ndb1 < int (Len (nodeCacheQueue ndb1))
             then evictOldest ndb1
             else (Return (), ndb1))"

definition GetNode2 ::
  "(bytes \<Rightarrow> (bytes \<Rightarrow> bytes) option \<Rightarrow> string + 'a Node) \<Rightarrow> bytes \<Rightarrow> 'a nodeDB2
   \<Rightarrow> ptr res \<times> 'a nodeDB2" where
  "GetNode2 MakeNode h ndb =
     (if length h = 0 then (Panic ''nodeDB.GetNode() requires hash'', ndb)
      else case getCachedNode h ndb of
        (Some node, ndb1) \<Rightarrow> (Return node, ndb1)
      | (None, ndb1) \<Rightarrow>
          (case db_Get (db ndb1) (nodeKey h) of
             None \<Rightarrow> (Panic ''Value missing for hash'', ndb1)
           | Some buf \<Rightarrow>
               (case MakeNode buf (getLeafValueCb ndb1) of
                  Inl err \<Rightarrow> (Panic ''Error reading Node'', ndb1)
                | Inr decoded \<Rightarrow>
                    (case newNode decoded ndb1 of
                       (node, ndb2) \<Rightarrow>
                         let ndb3 = setNode node (\<lambda>n. n\<lparr>hash := Some h\<rparr>) ndb2;
                             ndb4 = setNode node (\<lambda>n. n\<lparr>persisted := True\<rparr>) ndb3
                         in (case cacheNode2 node ndb4 of
                               (Return _, ndb5) \<Rightarrow> (Return node, ndb5)
                             | (Panic m, ndb5) \<Rightarrow> (Panic m, ndb5))))))"

definition writeNode ::
  "('a Node \<Rightarrow> bool \<Rightarrow> string + bytes) \<Rightarrow> ptr \<Rightarrow> 'a nodeDB2
   \<Rightarrow> unit res \<times> 'a nodeDB2" where
  "writeNode writeBytes node ndb =
     (case writeBytes (nodeAt node ndb) (getLeafValueCb ndb = None) of
        Inl err \<Rightarrow> (Panic err, ndb)
      | Inr buf \<Rightarrow>
          let ndb1 = ndb\<lparr>batch := batch_Set (nodeKey (string_of (hash (nodeAt node ndb)))) buf
                                  (batch ndb)\<rparr>
          in (Return (), setNode node (\<lambda>n. n\<lparr>persisted := True\<rparr>) ndb1))"

definition SaveNode2 ::
  "('a Node \<Rightarrow> bool \<Rightarrow> string + bytes) \<Rightarrow> ptr \<Rightarrow> bool \<Rightarrow> 'a nodeDB2
   \<Rightarrow> unit res \<times> 'a nodeDB2" where
  "SaveNode2 writeBytes node flushToDisk ndb =
     (if \<not> isNode node ndb then (Panic ''nil pointer dereference'', ndb)
      else if hash (nodeAt node ndb) = None
      then (Panic ''Expected to find node.hash, but none found.'', ndb)
      else if persisted (nodeAt node ndb)
      then (Panic ''Shouldn't be calling save on an already persisted node.'', ndb)
      else andThen (writeNode writeBytes node ndb) (cacheNode2 node))"

text \<open>The \<open>orphans\<close> map of \<open>SaveOrphans\<close> is the list of its entries in the order
  in which \<open>range\<close> happens to produce them.\<close>

definition SaveOrphans2 ::
  "int64 \<Rightarrow> (bytes \<times> int64) list \<Rightarrow> 'a nodeDB2 \<Rightarrow> unit res \<times> 'a nodeDB2" where
  "SaveOrphans2 version orphans ndb =
     (let toVersion = getPreviousVersion version ndb
      in forEach (\<lambda>(h, fromVersion). saveOrphan h fromVersion toVersion) orphans ndb)"

definition deleteOrphans2 :: "int64 \<Rightarrow> 'a nodeDB2 \<Rightarrow> unit res \<times> 'a nodeDB2" where
  "deleteOrphans2 version ndb =
     (let predecessor = getPreviousVersion version ndb
      in traverseOrphansVersion version (deleteOrphanEntry predecessor) ndb)"

definition DeleteVersion2 :: "int64 \<Rightarrow> bool \<Rightarrow> 'a nodeDB2 \<Rightarrow> unit res \<times> 'a nodeDB2" where
  "DeleteVersion2 version checkLatestVersion ndb =
     andThen (deleteOrphans2 version ndb) (deleteRoot version checkLatestVersion)"

definition DeleteMemoryVersion2 ::
  "int64 \<Rightarrow> int64 \<Rightarrow> 'a nodeDB2 \<Rightarrow> unit res \<times> 'a nodeDB2" where
  "DeleteMemoryVersion2 version previous ndb = DeleteVersion2 version False ndb"

definition Commit2 :: "'a nodeDB2 \<Rightarrow> 'a nodeDB2" where
  "Commit2 ndb = ndb\<lparr>db := batch_Write (batch ndb) (db ndb), batch := []\<rparr>"

definition ResetBatch2 :: "'a nodeDB2 \<Rightarrow> 'a nodeDB2" where
  "ResetBatch2 ndb = ndb\<lparr>batch := []\<rparr>"

definition RestMemBatch2 :: "'a nodeDB2 \<Rightarrow> 'a nodeDB2" where
  "RestMemBatch2 ndb = ndb\<lparr>batch := []\<rparr>"

definition ResetMemNodes2 :: "'a nodeDB2 \<Rightarrow> 'a nodeDB2" where
  "ResetMemNodes2 ndb = ndb"

definition MaxChacheSizeExceeded2 :: "'a nodeDB2 \<Rightarrow> bool" where
  "MaxChacheSizeExceeded2 ndb = True"

section \<open>nodeDB: the methods of the one-lock store\<close>

definition cacheNode :: "ptr \<Rightarrow> 'a nodeDB \<Rightarrow> unit res \<times> 'a nodeDB" where
  "cacheNode node ndb =
     (case PushBack node (nodeCacheQueue ndb) of
        (elem, q) \<Rightarrow>
          let ndb1 = ndb\<lparr>nodeCacheQueue := q,
                        nodeCache := (nodeCache ndb)(string_of (hash (nodeAt node ndb)) \<mapsto> elem)\<rparr>
          in if \<not> nodeCacheOnlyFlushOnSave ndb1
                \<and> nodeCacheSize ndb1 < int (Len (nodeCacheQueue ndb1))
             then evictOldest ndb1
             else (Return (), ndb1))"

definition GetNode ::
  "(bytes \<Rightarrow> (bytes \<Rightarrow> bytes) option \<Rightarrow> string + 'a Node) \<Rightarrow> bytes \<Rightarrow> 'a nodeDB
   \<Rightarrow> ptr res \<times> 'a nodeDB" where
  "GetNode MakeNode h ndb =
     (if length h = 0 then (Panic ''nodeDB.GetNode() requires hash'', ndb)
      else case nodeCache ndb h of
        Some elem \<Rightarrow>
          (Return (snd elem), ndb\<lparr>nodeCacheQueue := MoveToBack elem (nodeCacheQueue ndb)\<rparr>)
      | None \<Rightarrow>
          let loaded =
               (case (case memNodes ndb of None \<Rightarrow> None | Some m \<Rightarrow> m h) of
                  Some node \<Rightarrow> (Return node, ndb)
                | None \<Rightarrow>
                    (case db_Get (db ndb) (nodeKey h) of
                       None \<Rightarrow> (Panic ''Value missing for hash'', ndb)
                     | Some buf \<Rightarrow>
                         (case MakeNode buf (getLeafValueCb ndb) of
                            Inl err \<Rightarrow> (Panic ''Error reading Node'', ndb)
                          | Inr decoded \<Rightarrow>
                              (case newNode decoded ndb of
                                 (node, ndb1) \<Rightarrow>
                                   (Return node,
                                    setNode node (\<lambda>n. n\<lparr>persisted := True\<rparr>) ndb1)))))
          in (case loaded of
                (Panic m, ndb1) \<Rightarrow> (Panic m, ndb1)
              | (Return node, ndb1) \<Rightarrow>
                  let ndb2 = setNode node (\<lambda>n. n\<lparr>hash := Some h\<rparr>) ndb1
                  in (case cacheNode node ndb2 of
                        (Return _, ndb3) \<Rightarrow> (Return node, ndb3)
                      | (Panic m, ndb3) \<Rightarrow> (Panic m, ndb3))))"

definition SaveNode ::
  "('a Node \<Rightarrow> bool \<Rightarrow> string + bytes) \<Rightarrow> ptr \<Rightarrow> bool \<Rightarrow> 'a nodeDB
   \<Rightarrow> unit res \<times> 'a nodeDB" where
  "SaveNode writeBytes node flushToDisk ndb =
     (if \<not> isNode node ndb then (Panic ''nil pointer dereference'', ndb)
      else if hash (nodeAt node ndb) = None
      then (Panic ''Expected to find node.hash, but none found.'', ndb)
      else if persistedMem (nodeAt node ndb) \<and> \<not> flushToDisk then (Return (), ndb)
      else if persisted (nodeAt node ndb)
      then (Panic ''Shouldn't be calling save on an already persisted node.'', ndb)
      else case writeBytes (nodeAt node ndb) (getLeafValueCb ndb = None) of
        Inl err \<Rightarrow> (Panic err, ndb)
      | Inr buf \<Rightarrow>
          let saved =
               (if flushToDisk
                then let ndb1 = ndb\<lparr>batch := batch_Set (nodeKey (string_of (hash (nodeAt node ndb))))
                                                buf (batch ndb)\<rparr>
                     in (Return (), setNode node (\<lambda>n. n\<lparr>persisted := True\<rparr>) ndb1)
                else let ndb1 = setNode node (\<lambda>n. n\<lparr>persistedMem := True\<rparr>) ndb
                     in (case memNodes ndb1 of
                           None \<Rightarrow> (Panic ''assignment to entry in nil map'', ndb1)
                         | Some m \<Rightarrow>
                             (Return (),
                              ndb1\<lparr>memNodes :=
                                     Some (m(string_of (hash (nodeAt node ndb1)) \<mapsto> node))\<rparr>)))
          in andThen saved (cacheNode node))"

definition ResetMemNodes :: "'a nodeDB \<Rightarrow> 'a nodeDB" where
  "ResetMemNodes ndb =
     ndb\<lparr>dbMem := Some [], memNodes := Some Map.empty,
         batchOf := (if batchOf ndb = Mem then Dropped else batchOf ndb)\<rparr>"

definition ResetBatch :: "'a nodeDB \<Rightarrow> 'a nodeDB" where
  "ResetBatch ndb = ndb\<lparr>batch := [], batchOf := Disk\<rparr>"

definition RestMemBatch :: "'a nodeDB \<Rightarrow> unit res \<times> 'a nodeDB" where
  "RestMemBatch ndb =
     (case dbMem ndb of
        None \<Rightarrow> (Panic ''nil pointer dereference'', ndb)
      | Some m \<Rightarrow> (Return (), ndb\<lparr>batch := [], batchOf := Mem\<rparr>))"

definition SaveOrphans ::
  "int64 \<Rightarrow> (bytes \<times> int64) list \<Rightarrow> 'a nodeDB \<Rightarrow> unit res \<times> 'a nodeDB" where
  "SaveOrphans version orphans ndb =
     (let toVersion = version - 1
      in forEach (\<lambda>(h, fromVersion). saveOrphan h fromVersion toVersion) orphans ndb)"

text \<open>The second loop of \<open>deleteOrphansWithPredecessor\<close> runs over the caller's map
  \<open>*unsavedOrphans\<close> and rewrites it on the way; the map is an association list, every
  entry it held at the start of the loop is visited once, and the rewritten map is
  returned beside the store. (\<open>Has\<close> is called there and its result dropped.)\<close>

definition deleteUnsavedOrphan ::
  "int64 \<Rightarrow> int64 \<Rightarrow> bytes \<times> int64 \<Rightarrow> 'a nodeDB \<times> (bytes \<times> int64) list
   \<Rightarrow> unit res \<times> ('a nodeDB \<times> (bytes \<times> int64) list)" where
  "deleteUnsavedOrphan toVersion predecessor hv st =
     (case hv of (h, fromVersion) \<Rightarrow>
      case st of (ndb, m) \<Rightarrow>
        let key = Key orphanKeyFormat [I64 toVersion, I64 fromVersion, Raw h];
            ndb1 = ndb\<lparr>batch := batch_Delete key (batch ndb)\<rparr>;
            m1 = AList.delete h m
        in if predecessor <s fromVersion \<or> fromVersion = toVersion
           then (Return (),
                 (uncacheNode h (ndb1\<lparr>batch := batch_Delete (nodeKey h) (batch ndb1)\<rparr>), m1))
           else (case saveOrphan h fromVersion predecessor ndb1 of
                   (Return _, ndb2) \<Rightarrow> (Return (), (ndb2, AList.update h predecessor m1))
                 | (Panic msg, ndb2) \<Rightarrow> (Panic msg, (ndb2, m1))))"

definition deleteOrphansWithPredecessor ::
  "int64 \<Rightarrow> int64 \<Rightarrow> (bytes \<times> int64) list option \<Rightarrow> 'a nodeDB
   \<Rightarrow> unit res \<times> ('a nodeDB \<times> (bytes \<times> int64) list option)" where
  "deleteOrphansWithPredecessor version predecessor unsavedOrphans ndb =
     (case traverseOrphansVersion version (deleteOrphanEntry predecessor) ndb of
        (Panic msg, ndb1) \<Rightarrow> (Panic msg, (ndb1, unsavedOrphans))
      | (Return _, ndb1) \<Rightarrow>
          (case unsavedOrphans of
             None \<Rightarrow> (Return (), (ndb1, None))
           | Some m \<Rightarrow>
               let toVersion = (if 1 <s version then version + 1 else version)
               in (case forEach (deleteUnsavedOrphan toVersion predecessor) m (ndb1, m) of
                     (r, (ndb2, m')) \<Rightarrow> (r, (ndb2, Some m')))))"

definition deleteOrphans :: "int64 \<Rightarrow> 'a nodeDB \<Rightarrow> unit res \<times> 'a nodeDB" where
  "deleteOrphans version ndb =
     (let predecessor = getPreviousVersion version ndb
      in case deleteOrphansWithPredecessor version predecessor None ndb of
           (r, (ndb1, _)) \<Rightarrow> (r, ndb1))"

definition DeleteVersion :: "int64 \<Rightarrow> bool \<Rightarrow> 'a nodeDB \<Rightarrow> unit res \<times> 'a nodeDB" where
  "DeleteVersion version checkLatestVersion ndb =
     andThen (deleteOrphans version ndb) (deleteRoot version checkLatestVersion)"

definition DeleteMemoryVersion ::
  "int64 \<Rightarrow> int64 \<Rightarrow> (bytes \<times> int64) list option \<Rightarrow> 'a nodeDB
   \<Rightarrow> unit res \<times> ('a nodeDB \<times> (bytes \<times> int64) list option)" where
  "DeleteMemoryVersion version previous unsavedOrphans ndb =
     (case deleteOrphansWithPredecessor version previous unsavedOrphans ndb of
        (Panic msg, st) \<Rightarrow> (Panic msg, st)
      | (Return _, (ndb1, m)) \<Rightarrow>
          (case deleteRoot version False ndb1 of (r, ndb2) \<Rightarrow> (r, (ndb2, m))))"

definition MaxChacheSizeExceeded :: "'a nodeDB \<Rightarrow> bool" where
  "MaxChacheSizeExceeded ndb =
     (0 < nodeMaxCacheSize ndb
      \<and> nodeMaxCacheSize ndb < (of_nat (Len (nodeCacheQueue ndb)) :: uint64))"

function FlushCache :: "'a nodeDB \<Rightarrow> unit res \<times> 'a nodeDB" where
  "FlushCache ndb =
     (if nodeCacheSize ndb < int (Len (nodeCacheQueue ndb))
      then (case Front (nodeCacheQueue ndb) of
              None \<Rightarrow> (Panic ''nil pointer dereference'', ndb)
            | Some oldest \<Rightarrow>
                FlushCache
                  (ndb\<lparr>nodeCacheQueue := Remove oldest (nodeCacheQueue ndb),
                       nodeCache :=
                         (nodeCache ndb)(string_of (hash (nodeAt (snd oldest) ndb)) := None)\<rparr>))
      else (Return (), ndb))"
  by pat_completeness auto
termination
proof (relation "measure (\<lambda>ndb. Len (nodeCacheQueue ndb))")
  show "wf (measure (\<lambda>ndb :: 'a nodeDB. Len (nodeCacheQueue ndb)))"
    by simp
next
  fix ndb :: "'a nodeDB" and oldest
  assume "Front (nodeCacheQueue ndb) = Some oldest"
  then obtain rest where "elems (nodeCacheQueue ndb) = oldest # rest"
    by (auto simp: Front_def split: list.splits)
  then have "length (filter (\<lambda>x. x \<noteq> oldest) (elems (nodeCacheQueue ndb)))
             < length (elems (nodeCacheQueue ndb))"
    by (simp add: le_imp_less_Suc)
  then show "(ndb\<lparr>nodeCacheQueue := Remove oldest (nodeCacheQueue ndb),
                 nodeCache := (nodeCache ndb)(string_of (hash (nodeAt (snd oldest) ndb)) := None)\<rparr>,
              ndb)
             \<in> measure (\<lambda>ndb. Len (nodeCacheQueue ndb))"
    by (simp add: Len_def Remove_def)
qed

declare FlushCache.simps [simp del]

definition Commit :: "'a nodeDB \<Rightarrow> unit res \<times> 'a nodeDB" where
  "Commit ndb =
     (let written =
           (case batchOf ndb of
              Disk \<Rightarrow> ndb\<lparr>db := batch_Write (batch ndb) (db ndb)\<rparr>
            | Mem \<Rightarrow> ndb\<lparr>dbMem := map_option (batch_Write (batch ndb)) (dbMem ndb)\<rparr>
            | Dropped \<Rightarrow> ndb)
      in FlushCache (written\<lparr>batch := [], batchOf := Disk\<rparr>))"

section \<open>Calls of the stores\<close>

text \<open>
  One call of a method, as a value: \<open>exec2 c\<close> and \<open>exec c\<close> are the store after the call
  \<open>c\<close> of a method of nodeDB2 and of nodeDB (the store at the panic, when the call
  panics). All the methods of the two files that write to the store are there, the
  unexported ones too, but for \<open>resetLatestVersion\<close>; \<open>newNode\<close> and \<open>setNode\<close> are the
  writes of the caller to the nodes. (\<open>SaveBranch\<close> writes through \<open>SaveNode\<close>; the
  methods left out only read.)
\<close>

datatype 'a call2 =
    GetNode2_call "bytes \<Rightarrow> (bytes \<Rightarrow> bytes) option \<Rightarrow> string + 'a Node" bytes
  | SaveNode2_call "'a Node \<Rightarrow> bool \<Rightarrow> string + bytes" ptr bool
  | SaveOrphans2_call int64 "(bytes \<times> int64) list"
  | DeleteVersion2_call int64 bool
  | DeleteMemoryVersion2_call int64 int64
  | SaveRoot2_call ptr int64
  | SaveEmptyRoot2_call int64
  | Commit2_call
  | ResetBatch2_call
  | RestMemBatch2_call
  | ResetMemNodes2_call
  | getLatestVersion2_call
  | updateLatestVersion2_call int64
  | saveRoot2_call bytes int64
  | getCachedNode2_call bytes
  | saveOrphan2_call bytes int64 int64
  | deleteOrphans2_call int64
  | deleteRoot2_call int64 bool
  | uncacheNode2_call bytes
  | cacheNode2_call ptr
  | writeNode2_call "'a Node \<Rightarrow> bool \<Rightarrow> string + bytes" ptr
  | newNode2_call "'a Node"
  | setNode2_call ptr "'a Node \<Rightarrow> 'a Node"

fun exec2 :: "'a call2 \<Rightarrow> 'a nodeDB2 \<Rightarrow> 'a nodeDB2" where
  "exec2 (GetNode2_call MakeNode h) ndb = snd (GetNode2 MakeNode h ndb)"
| "exec2 (SaveNode2_call writeBytes node flushToDisk) ndb
     = snd (SaveNode2 writeBytes node flushToDisk ndb)"
| "exec2 (SaveOrphans2_call version orphans) ndb = snd (SaveOrphans2 version orphans ndb)"
| "exec2 (DeleteVersion2_call version checkLatestVersion) ndb
     = snd (DeleteVersion2 version checkLatestVersion ndb)"
| "exec2 (DeleteMemoryVersion2_call version previous) ndb
     = snd (DeleteMemoryVersion2 version previous ndb)"
| "exec2 (SaveRoot2_call root version) ndb = snd (SaveRoot root version ndb)"
| "exec2 (SaveEmptyRoot2_call version) ndb = snd (SaveEmptyRoot version ndb)"
| "exec2 Commit2_call ndb = Commit2 ndb"
| "exec2 ResetBatch2_call ndb = ResetBatch2 ndb"
| "exec2 RestMemBatch2_call ndb = RestMemBatch2 ndb"
| "exec2 ResetMemNodes2_call ndb = ResetMemNodes2 ndb"
| "exec2 getLatestVersion2_call ndb = snd (getLatestVersion ndb)"
| "exec2 (updateLatestVersion2_call version) ndb = updateLatestVersion version ndb"
| "exec2 (saveRoot2_call h version) ndb = snd (saveRoot h version ndb)"
| "exec2 (getCachedNode2_call h) ndb = snd (getCachedNode h ndb)"
| "exec2 (saveOrphan2_call h fromVersion toVersion) ndb
     = snd (saveOrphan h fromVersion toVersion ndb)"
| "exec2 (deleteOrphans2_call version) ndb = snd (deleteOrphans2 version ndb)"
| "exec2 (deleteRoot2_call version checkLatestVersion) ndb
     = snd (deleteRoot version checkLatestVersion ndb)"
| "exec2 (uncacheNode2_call h) ndb = uncacheNode h ndb"
| "exec2 (cacheNode2_call node) ndb = snd (cacheNode2 node ndb)"
| "exec2 (writeNode2_call writeBytes node) ndb = snd (writeNode writeBytes node ndb)"
| "exec2 (newNode2_call n) ndb = snd (newNode n ndb)"
| "exec2 (setNode2_call p f) ndb = setNode p f ndb"

datatype 'a call =
    GetNode_call "bytes \<Rightarrow> (bytes \<Rightarrow> bytes) option \<Rightarrow> string + 'a Node" bytes
  | SaveNode_call "'a Node \<Rightarrow> bool \<Rightarrow> string + bytes" ptr bool
  | SaveOrphans_call int64 "(bytes \<times> int64) list"
  | DeleteVersion_call int64 bool
  | DeleteMemoryVersion_call int64 int64 "(bytes \<times> int64) list option"
  | SaveRoot_call ptr int64
  | SaveEmptyRoot_call int64
  | Commit_call
  | FlushCache_call
  | ResetBatch_call
  | RestMemBatch_call
  | ResetMemNodes_call
  | getLatestVersion_call
  | updateLatestVersion_call int64
  | saveRoot_call bytes int64
  | saveOrphan_call bytes int64 int64
  | deleteOrphans_call int64
  | deleteOrphansWithPredecessor_call int64 int64 "(bytes \<times> int64) list option"
  | deleteRoot_call int64 bool
  | uncacheNode_call bytes
  | cacheNode_call ptr
  | newNode_call "'a Node"
  | setNode_call ptr "'a Node \<Rightarrow> 'a Node"

fun exec :: "'a call \<Rightarrow> 'a nodeDB \<Rightarrow> 'a nodeDB" where
  "exec (GetNode_call MakeNode h) ndb = snd (GetNode MakeNode h ndb)"
| "exec (SaveNode_call writeBytes node flushToDisk) ndb
     = snd (SaveNode writeBytes node flushToDisk ndb)"
| "exec (SaveOrphans_call version orphans) ndb = snd (SaveOrphans version orphans ndb)"
| "exec (DeleteVersion_call version checkLatestVersion) ndb
     = snd (DeleteVersion version checkLatestVersion ndb)"
| "exec (DeleteMemoryVersion_call version previous unsavedOrphans) ndb
     = fst (snd (DeleteMemoryVersion version previous unsavedOrphans ndb))"
| "exec (SaveRoot_call root version) ndb = snd (SaveRoot root version ndb)"
| "exec (SaveEmptyRoot_call version) ndb = snd (SaveEmptyRoot version ndb)"
| "exec Commit_call ndb = snd (Commit ndb)"
| "exec FlushCache_call ndb = snd (FlushCache ndb)"
| "exec ResetBatch_call ndb = ResetBatch ndb"
| "exec RestMemBatch_call ndb = snd (RestMemBatch ndb)"
| "exec ResetMemNodes_call ndb = ResetMemNodes ndb"
| "exec getLatestVersion_call ndb = snd (getLatestVersion ndb)"
| "exec (updateLatestVersion_call version) ndb = updateLatestVersion version ndb"
| "exec (saveRoot_call h version) ndb = snd (saveRoot h version ndb)"
| "exec (saveOrphan_call h fromVersion toVersion) ndb
     = snd (saveOrphan h fromVersion toVersion ndb)"
| "exec (deleteOrphans_call version) ndb = snd (deleteOrphans version ndb)"
| "exec (deleteOrphansWithPredecessor_call version predecessor unsavedOrphans) ndb
     = fst (snd (deleteOrphansWithPredecessor version predecessor unsavedOrphans ndb))"
| "exec (deleteRoot_call version checkLatestVersion) ndb
     = snd (deleteRoot version checkLatestVersion ndb)"
| "exec (uncacheNode_call h) ndb = uncacheNode h ndb"
| "exec (cacheNode_call node) ndb = snd (cacheNode node ndb)"
| "exec (newNode_call n) ndb = snd (newNode n ndb)"
| "exec (setNode_call p f) ndb = setNode p f ndb"

section \<open>What pruning does to one orphan entry\<close>

text \<open>
  The description that the specification gives of \<open>delete_version\<close>, step 3, to compare
  the traversal of the code with. \<open>expiringAt version\<close> are the entries that the scan of
  the orphans with this last version visits, in its order. \<open>orphanPruned\<close> is the
  condition under which the node goes as well: the predecessor is below the first
  version, or first and last version are equal. \<open>pruneOps\<close> are the batch operations
  for one entry: the orphan entry is deleted, then either the node entry is deleted or an
  orphan entry ending at the predecessor is set. \<open>prunedHashes\<close> are the hashes of the
  entries whose node goes, and \<open>uncachePruned\<close> is the store with these nodes removed
  from the cache: the map \<open>nodeCache\<close> has lost its entries under these hashes, the queue
  has lost the elements that these entries pointed to, and everything else, the order
  of the queue included, is as before.

  \<open>rootKeysWellFormed\<close>: every key of the store that starts with \<open>'r'\<close> is a root key,
  the prefix followed by the 8 bytes of a version.
\<close>

definition rootKeysWellFormed :: "DB \<Rightarrow> bool" where
  "rootKeysWellFormed d =
     list_all (\<lambda>(k, v). prefix [rootKeyFormat] k \<longrightarrow> length k = 1 + int64Size) d"

definition expiringAt :: "int64 \<Rightarrow> DB \<Rightarrow> (bytes \<times> bytes) list" where
  "expiringAt version d = IteratePrefix d (Key orphanKeyFormat [I64 version])"

definition orphanPruned :: "int64 \<Rightarrow> bytes \<Rightarrow> bool" where
  "orphanPruned predecessor key =
     (predecessor <s Scan_int64 key 1 \<or> Scan_int64 key 1 = Scan_int64 key 0)"

definition pruneOps :: "int64 \<Rightarrow> bytes \<times> bytes \<Rightarrow> batch_op list" where
  "pruneOps predecessor kv =
     (case kv of (key, h) \<Rightarrow>
        Delete key #
        (if orphanPruned predecessor key then [Delete (nodeKey h)]
         else [Set (orphanKey (Scan_int64 key 1) predecessor h) h]))"

definition prunedHashes :: "int64 \<Rightarrow> (bytes \<times> bytes) list \<Rightarrow> bytes list" where
  "prunedHashes predecessor es =
     map snd (filter (\<lambda>(key, h). orphanPruned predecessor key) es)"

definition uncachePruned ::
  "int64 \<Rightarrow> (bytes \<times> bytes) list \<Rightarrow> ('a, 'z) nodeDB2_scheme \<Rightarrow> ('a, 'z) nodeDB2_scheme" where
  "uncachePruned predecessor es ndb =
     ndb\<lparr>nodeCacheQueue :=
           (nodeCacheQueue ndb)
             \<lparr>elems := filter (\<lambda>e. Some e \<notin> nodeCache ndb ` set (prunedHashes predecessor es))
                             (elems (nodeCacheQueue ndb))\<rparr>,
         nodeCache := nodeCache ndb |` (- set (prunedHashes predecessor es))\<rparr>"

section \<open>The predecessor of a version\<close>

text \<open>
  The version index as the specification describes it (4.4): \<open>hasRoot d v\<close>, the store
  has a root entry for version \<open>v\<close>; \<open>isPredecessor d version p\<close>, \<open>p\<close> is the largest
  version below \<open>version\<close> (and at least 1) with a root entry, or 0 when there is none.
  Versions are compared as signed integers.
\<close>

definition hasRoot :: "DB \<Rightarrow> int64 \<Rightarrow> bool" where
  "hasRoot d v = (db_Get d (rootKey v) \<noteq> None)"

definition isPredecessor :: "DB \<Rightarrow> int64 \<Rightarrow> int64 \<Rightarrow> bool" where
  "isPredecessor d version p =
     (if \<exists>v. 1 \<le>s v \<and> v <s version \<and> hasRoot d v
      then hasRoot d p \<and> 1 \<le>s p \<and> p <s version
           \<and> (\<forall>v. p <s v \<and> v <s version \<longrightarrow> \<not> hasRoot d v)
      else p = 0)"

section \<open>Describing the cache and a written batch\<close>

text \<open>
  \<open>cacheWithinLimit\<close>: the queue of the cache is no longer than \<open>nodeCacheSize\<close>, the
  count that \<open>cacheNode\<close> and \<open>FlushCache\<close> test. \<open>cacheConsistent\<close>: every entry of the
  map \<open>nodeCache\<close> points to an element of the queue that holds a node with the hash of
  the entry. \<open>pushed node\<close> is the store in which \<open>cacheNode\<close> tests the length of the
  queue: the node at the back of the queue and under its hash in the map. \<open>memNode\<close> is
  what \<open>ndb.memNodes[string(hash)]\<close> reads. \<open>applyToMap\<close> is the effect of a batch
  operation on the store seen as a map, and \<open>written\<close> the store of \<open>Commit\<close> of nodeDB
  between installing the new batch and \<open>FlushCache\<close>.

  \<open>queueOK\<close>: the elements of the queue have different identities, all of them handed
  out by \<open>PushBack\<close>; so it is in a new store and after every method. \<open>trimmed k\<close> is the
  cache without its \<open>k\<close> least recently used elements: the first \<open>k\<close> elements are gone
  from the queue, and the entries under the hashes of their nodes (\<open>evictedHashes\<close>) are
  gone from the map; the rest of the queue, in its order, and the rest of the map stay.
\<close>

definition cacheWithinLimit :: "('a, 'z) nodeDB2_scheme \<Rightarrow> bool" where
  "cacheWithinLimit ndb = (int (Len (nodeCacheQueue ndb)) \<le> nodeCacheSize ndb)"

definition cacheConsistent :: "('a, 'z) nodeDB2_scheme \<Rightarrow> bool" where
  "cacheConsistent ndb =
     (\<forall>h e. nodeCache ndb h = Some e \<longrightarrow>
        e \<in> set (elems (nodeCacheQueue ndb)) \<and> string_of (hash (nodeAt (snd e) ndb)) = h)"

definition pushed :: "ptr \<Rightarrow> ('a, 'z) nodeDB2_scheme \<Rightarrow> ('a, 'z) nodeDB2_scheme" where
  "pushed node ndb =
     ndb\<lparr>nodeCacheQueue := snd (PushBack node (nodeCacheQueue ndb)),
         nodeCache := (nodeCache ndb)(string_of (hash (nodeAt node ndb))
                                       \<mapsto> fst (PushBack node (nodeCacheQueue ndb)))\<rparr>"

definition memNode :: "bytes \<Rightarrow> 'a nodeDB \<Rightarrow> ptr option" where
  "memNode h ndb = (case memNodes ndb of None \<Rightarrow> None | Some m \<Rightarrow> m h)"

definition queueOK :: "List \<Rightarrow> bool" where
  "queueOK q = (distinct (map fst (elems q)) \<and> list_all (\<lambda>e. fst e < allocated q) (elems q))"

definition evictedHashes :: "nat \<Rightarrow> ('a, 'z) nodeDB2_scheme \<Rightarrow> bytes list" where
  "evictedHashes k ndb =
     map (\<lambda>e. string_of (hash (nodeAt (snd e) ndb))) (take k (elems (nodeCacheQueue ndb)))"

definition trimmed :: "nat \<Rightarrow> ('a, 'z) nodeDB2_scheme \<Rightarrow> ('a, 'z) nodeDB2_scheme" where
  "trimmed k ndb =
     ndb\<lparr>nodeCacheQueue := (nodeCacheQueue ndb)\<lparr>elems := drop k (elems (nodeCacheQueue ndb))\<rparr>,
         nodeCache := nodeCache ndb |` (- set (evictedHashes k ndb))\<rparr>"

fun applyToMap :: "(bytes \<rightharpoonup> bytes) \<Rightarrow> batch_op \<Rightarrow> (bytes \<rightharpoonup> bytes)" where
  "applyToMap m (Set k v) = m(k \<mapsto> v)"
| "applyToMap m (Delete k) = m(k := None)"

definition written :: "'a nodeDB \<Rightarrow> 'a nodeDB" where
  "written ndb =
     (case batchOf ndb of
        Disk \<Rightarrow> ndb\<lparr>db := batch_Write (batch ndb) (db ndb)\<rparr>
      | Mem \<Rightarrow> ndb\<lparr>dbMem := map_option (batch_Write (batch ndb)) (dbMem ndb)\<rparr>
      | Dropped \<Rightarrow> ndb)\<lparr>batch := [], batchOf := Disk\<rparr>"

section \<open>Example states\<close>

text \<open>Concrete stores on which the theorems below are evaluated.\<close>

definition emptyStore2 :: "unit nodeDB2" where
  "emptyStore2 = NewNodeDB2 [] 10 None"

definition prunedStore2 :: "unit nodeDB2" where
  "prunedStore2 =
     (let s1 = Commit2 (snd (saveRoot [9] 1 emptyStore2));
          s2 = Commit2 (snd (saveRoot [8] 2 s1))
      in Commit2 (snd (DeleteVersion2 2 False s2)))"

definition threeVersions :: DB where
  "threeVersions =
     [(rootKey 1, [9]), (rootKey 2, [8]), (rootKey 3, [6]),
      (orphanKey 1 2 [7], [7]), (orphanKey 2 2 [5], [5]),
      (nodeKey [7], [1]), (nodeKey [5], [2])]"

definition rootedStore2 :: "unit nodeDB2" where
  "rootedStore2 = Commit2 (snd (saveRoot [9] 1 emptyStore2))"

definition orphanedStore2 :: "unit nodeDB2" where
  "orphanedStore2 = Commit2 (snd (SaveOrphans2 2 [([7], 1)] rootedStore2))"

definition prunableStore2 :: "unit nodeDB2" where
  "prunableStore2 = (NewNodeDB2 threeVersions 10 None)\<lparr>latestVersion := 3\<rparr>"

text \<open>A codec for the examples: every node is written as one byte, and every buffer
  decodes to a node without hash and flags.\<close>

definition exampleWriteBytes :: "unit Node \<Rightarrow> bool \<Rightarrow> string + bytes" where
  "exampleWriteBytes node omitValue = Inr [1]"

definition exampleMakeNode :: "bytes \<Rightarrow> (bytes \<Rightarrow> bytes) option \<Rightarrow> string + unit Node" where
  "exampleMakeNode buf cb = Inr \<lparr>hash = None, persisted = False, persistedMem = False, content = ()\<rparr>"

definition node7 :: "unit Node" where
  "node7 = \<lparr>hash = Some [7], persisted = False, persistedMem = False, content = ()\<rparr>"

definition node8 :: "unit Node" where
  "node8 = \<lparr>hash = Some [8], persisted = False, persistedMem = False, content = ()\<rparr>"

text \<open>In the stores below that hold nodes, \<open>node7\<close> is made first and \<open>node8\<close> second:
  their addresses are 0 and 1.\<close>

definition flushOnSaveStore :: "unit nodeDB" where
  "flushOnSaveStore =
     snd (SaveNode exampleWriteBytes 1 True
            (snd (SaveNode exampleWriteBytes 0 True
                    (snd (newNode node8 (snd (newNode node7 (NewNodeDB3 [] 1 0 True None))))))))"

definition memTierStore :: "unit nodeDB" where
  "memTierStore =
     snd (SaveNode exampleWriteBytes 1 False
            (snd (SaveNode exampleWriteBytes 0 False
                    (snd (newNode node8 (snd (newNode node7 (NewNodeDB [] 1 None))))))))"

text \<open>\<open>prunableStore2\<close> after \<open>GetNode\<close> has loaded the nodes with the hashes \<open>[5]\<close> and
  \<open>[7]\<close> into the cache.\<close>

definition cachedPrunable2 :: "unit nodeDB2" where
  "cachedPrunable2 =
     snd (GetNode2 exampleMakeNode [7] (snd (GetNode2 exampleMakeNode [5] prunableStore2)))"

text \<open>One node saved twice, to memory and then to disk: \<open>memNodes\<close> and two elements of
  the queue hold its address.\<close>

definition savedTwiceStore :: "unit nodeDB" where
  "savedTwiceStore =
     snd (SaveNode exampleWriteBytes 0 True
            (snd (SaveNode exampleWriteBytes 0 False
                    (snd (newNode node7 (NewNodeDB [] 10 None))))))"

text \<open>A new store on a backing store that holds three versions.\<close>

definition unloadedStore2 :: "unit nodeDB2" where
  "unloadedStore2 = NewNodeDB2 threeVersions 10 None"

definition diskStore2 :: "unit nodeDB2" where
  "diskStore2 = NewNodeDB2 [(nodeKey [7], [1])] 10 None"

text \<open>A store with a cache of one element that holds \<open>node7\<close>, and \<open>node8\<close> made but not
  saved; a store with a cache of two elements and \<open>nodeCacheOnlyFlushOnSave\<close> after four
  nodes were saved (at the addresses 0 to 3).\<close>

definition fullStore :: "unit nodeDB" where
  "fullStore =
     snd (SaveNode exampleWriteBytes 0 True
            (snd (newNode node8 (snd (newNode node7 (NewNodeDB [] 1 None))))))"

definition node5 :: "unit Node" where
  "node5 = \<lparr>hash = Some [5], persisted = False, persistedMem = False, content = ()\<rparr>"

definition node6 :: "unit Node" where
  "node6 = \<lparr>hash = Some [6], persisted = False, persistedMem = False, content = ()\<rparr>"

definition fourNodes :: "unit nodeDB" where
  "fourNodes =
     snd (newNode node8 (snd (newNode node7 (snd (newNode node6 (snd (newNode node5
       (NewNodeDB3 [] 2 0 True None))))))))"

definition fourCachedStore :: "unit nodeDB" where
  "fourCachedStore =
     snd (SaveNode exampleWriteBytes 3 True
            (snd (SaveNode exampleWriteBytes 2 True
                    (snd (SaveNode exampleWriteBytes 1 True
                            (snd (SaveNode exampleWriteBytes 0 True fourNodes)))))))"

section \<open>Facts about the key codec\<close>

lemma length_be_bytes [simp]: "length (be_bytes k n) = k"
  by (induction k arbitrary: n) simp_all

lemma be_value_Nil [simp]: "be_value [] = 0"
  by (simp add: be_value_def)

lemma foldl_horner:
  "foldl (\<lambda>n b. n * 256 + unat b) a (xs :: bytes)
   = a * 256 ^ length xs + foldl (\<lambda>n b. n * 256 + unat b) 0 xs"
proof (induction xs arbitrary: a)
  case Nil
  show ?case by simp
next
  case (Cons y ys)
  let ?f = "\<lambda>n (b :: byte). n * 256 + unat b"
  have "foldl ?f (a * 256 + unat y) ys = (a * 256 + unat y) * 256 ^ length ys + foldl ?f 0 ys"
    by (rule Cons.IH)
  moreover have "foldl ?f (unat y) ys = unat y * 256 ^ length ys + foldl ?f 0 ys"
    by (rule Cons.IH)
  ultimately show ?case
    by (simp add: add_mult_distrib)
qed

lemma be_value_Cons: "be_value (x # xs) = unat x * 256 ^ length xs + be_value xs"
  using foldl_horner [of "unat x" xs] by (simp add: be_value_def)

lemma digits_less:
  fixes a c r s B :: nat
  assumes "r < B" and "s < B"
  shows "(a * B + r < c * B + s) = (a < c \<or> a = c \<and> r < s)"
proof (cases a c rule: linorder_cases)
  case less
  then have "Suc a * B \<le> c * B"
    by (intro mult_le_mono1) simp
  with assms less show ?thesis by simp
next
  case equal
  then show ?thesis by simp
next
  case greater
  then have "Suc c * B \<le> a * B"
    by (intro mult_le_mono1) simp
  with assms greater show ?thesis by simp
qed

lemma be_value_less: "be_value xs < 256 ^ length xs"
proof (induction xs)
  case Nil
  show ?case by simp
next
  case (Cons x xs)
  have "unat x < 256"
    using unsigned_less [of x] by simp
  then have le: "Suc (unat x) * 256 ^ length xs \<le> 256 * 256 ^ length xs"
    by (intro mult_le_mono1) simp
  have "unat x * 256 ^ length xs + be_value xs < unat x * 256 ^ length xs + 256 ^ length xs"
    using Cons.IH by simp
  also have "\<dots> = Suc (unat x) * 256 ^ length xs"
    by simp
  also note le
  finally show ?case
    by (simp add: be_value_Cons)
qed

lemma be_value_be_bytes: "n < 256 ^ k \<Longrightarrow> be_value (be_bytes k n) = n"
proof (induction k arbitrary: n)
  case 0
  then show ?case by simp
next
  case (Suc k)
  have d: "n div 256 ^ k < 256"
    using Suc.prems by (simp add: less_mult_imp_div_less mult.commute)
  have "unat (of_nat (n div 256 ^ k) :: byte) = n div 256 ^ k"
    using d by (simp add: unat_of_nat)
  then show ?case
    by (simp add: be_value_Cons Suc.IH div_mult_mod_eq)
qed

lemma length_be64 [simp]: "length (be64 v) = 8"
  by (simp add: be64_def int64Size_def)

lemma be_value_be64 [simp]: "be_value (be64 v) = unat v"
proof -
  have "unat v < 256 ^ 8"
    using unsigned_less [of v] by simp
  then show ?thesis
    by (simp add: be64_def int64Size_def be_value_be_bytes)
qed

lemma int64_of_be_be64 [simp]: "int64_of_be (be64 v) = v"
  by (simp add: int64_of_be_def)

lemma be_value_mono:
  "length xs = length ys \<Longrightarrow> (xs < ys) = (be_value xs < be_value ys)"
proof (induction xs ys rule: list_induct2)
  case Nil
  show ?case by simp
next
  case (Cons x xs y ys)
  have bx: "be_value xs < 256 ^ length ys" and by': "be_value ys < 256 ^ length ys"
    using be_value_less [of xs] be_value_less [of ys] Cons.hyps by simp_all
  have "(x # xs < y # ys) = (x < y \<or> x = y \<and> xs < ys)"
    by (rule Cons_less_Cons)
  also have "\<dots> = (unat x < unat y \<or> unat x = unat y \<and> be_value xs < be_value ys)"
    by (simp only: word_less_nat_alt word_unat_eq_iff Cons.IH)
  also have "\<dots> = (unat x * 256 ^ length ys + be_value xs < unat y * 256 ^ length ys + be_value ys)"
    by (rule digits_less [OF bx by', symmetric])
  finally show ?case
    by (simp only: be_value_Cons Cons.hyps)
qed

lemma be_bytes_numeral:
  "be_bytes (numeral k) n =
     of_nat (n div 256 ^ pred_numeral k) # be_bytes (pred_numeral k) (n mod 256 ^ pred_numeral k)"
  by (simp add: numeral_eq_Suc)

lemmas be64_eval = be64_def int64Size_def be_bytes_numeral

lemma be64_example: "be64 0x0102030405060708 = [1, 2, 3, 4, 5, 6, 7, 8]"
  by (simp add: be64_eval)

lemma orphanKey_bytes: "orphanKey fromVersion toVersion h = 0x6F # be64 toVersion @ be64 fromVersion @ h"
  by (simp add: orphanKey_def Key_def orphanKeyFormat_def)

lemma rootKey_bytes: "rootKey version = 0x72 # be64 version"
  by (simp add: rootKey_def Key_def rootKeyFormat_def)

lemma nodeKey_bytes: "nodeKey h = 0x6E # h"
  by (simp add: nodeKey_def KeyBytes_def nodeKeyFormat_def)

lemma Scan_orphanKey:
  "Scan_int64 (orphanKey fromVersion toVersion h) 0 = toVersion"
  "Scan_int64 (orphanKey fromVersion toVersion h) 1 = fromVersion"
  by (simp_all add: orphanKey_bytes Scan_int64_def int64Size_def)

lemma Scan_rootKey: "Scan_int64 (rootKey version) 0 = version"
  by (simp add: rootKey_bytes Scan_int64_def int64Size_def)

section \<open>Facts about loops, signed versions and the shared methods\<close>

lemma forEach_keeps:
  assumes "\<And>x s. g (snd (f x s)) = g s"
  shows "g (snd (forEach f xs s)) = g s"
proof (induction xs arbitrary: s)
  case Nil
  show ?case by simp
next
  case (Cons x xs)
  obtain r s' where fx: "f x s = (r, s')"
    by (cases "f x s")
  have "g s' = g s"
    using assms [of x s] fx by simp
  then show ?case
    using Cons.IH [of s'] fx by (cases r) simp_all
qed

lemma forEach_Return:
  assumes "\<And>x s. fst (f x s) = Return ()"
  shows "fst (forEach f xs s) = Return ()"
proof (induction xs arbitrary: s)
  case Nil
  show ?case by simp
next
  case (Cons x xs)
  obtain s' where "f x s = (Return (), s')"
    using assms [of x s] by (cases "f x s") simp
  then show ?case
    using Cons.IH [of s'] by simp
qed

lemma saveOrphan_Return:
  "\<not> toVersion <s fromVersion \<Longrightarrow>
   saveOrphan h fromVersion toVersion ndb =
     (Return (), ndb\<lparr>batch := batch ndb @ [Set (orphanKey fromVersion toVersion h) h]\<rparr>)"
  by (simp add: saveOrphan_def batch_Set_def)

lemma uncacheNode_keeps [simp]:
  "db (uncacheNode h ndb) = db ndb"
  "batch (uncacheNode h ndb) = batch ndb"
  "latestVersion (uncacheNode h ndb) = latestVersion ndb"
  "nodeCacheSize (uncacheNode h ndb) = nodeCacheSize ndb"
  by (simp_all add: uncacheNode_def split: option.splits)

lemma deleteOrphanEntry_Return: "fst (deleteOrphanEntry p kv ndb) = Return ()"
  by (cases kv) (simp add: deleteOrphanEntry_def Let_def saveOrphan_def signed.not_less signed.leD)

lemma deleteOrphanEntry_keeps:
  "db (snd (deleteOrphanEntry p kv ndb)) = db ndb"
  "latestVersion (snd (deleteOrphanEntry p kv ndb)) = latestVersion ndb"
  by (cases kv; simp add: deleteOrphanEntry_def Let_def saveOrphan_def)+

lemma getLatestVersion_db_only:
  "db ndb' = db ndb \<Longrightarrow> latestVersion ndb' = latestVersion ndb \<Longrightarrow>
   fst (getLatestVersion ndb') = fst (getLatestVersion ndb)"
  by (simp add: getLatestVersion_def getPreviousVersion_def Let_def)

lemma deleteRoot_unchecked:
  "deleteRoot version False ndb =
     (Return (), ndb\<lparr>batch := batch ndb @ [Delete (rootKey version)]\<rparr>)"
  by (simp add: deleteRoot_def batch_Delete_def)

lemma deleteOrphans2_Return: "fst (deleteOrphans2 version ndb) = Return ()"
  by (simp add: deleteOrphans2_def traverseOrphansVersion_def traversePrefix_def
      forEach_Return deleteOrphanEntry_Return)

lemma deleteOrphans2_keeps:
  "db (snd (deleteOrphans2 version ndb)) = db ndb"
  "latestVersion (snd (deleteOrphans2 version ndb)) = latestVersion ndb"
  by (simp_all add: deleteOrphans2_def traverseOrphansVersion_def traversePrefix_def
      forEach_keeps deleteOrphanEntry_keeps)

lemma deleteOrphans_Return: "fst (deleteOrphans version ndb) = Return ()"
proof -
  have "fst (traverseOrphansVersion version (deleteOrphanEntry p) ndb) = Return ()" for p
    by (simp add: traverseOrphansVersion_def traversePrefix_def forEach_Return
        deleteOrphanEntry_Return)
  from this [of "getPreviousVersion version ndb"] show ?thesis
    by (cases "traverseOrphansVersion version (deleteOrphanEntry (getPreviousVersion version ndb)) ndb")
      (simp add: deleteOrphans_def deleteOrphansWithPredecessor_def Let_def)
qed

lemma deleteOrphans_snd:
  "snd (deleteOrphans version ndb)
   = snd (traverseOrphansVersion version (deleteOrphanEntry (getPreviousVersion version ndb)) ndb)"
  by (cases "traverseOrphansVersion version (deleteOrphanEntry (getPreviousVersion version ndb)) ndb")
    (simp add: deleteOrphans_def deleteOrphansWithPredecessor_def Let_def split: res.splits)

lemma deleteOrphans_keeps:
  "db (snd (deleteOrphans version ndb)) = db ndb"
  "latestVersion (snd (deleteOrphans version ndb)) = latestVersion ndb"
  by (simp_all add: deleteOrphans_snd traverseOrphansVersion_def traversePrefix_def
      forEach_keeps deleteOrphanEntry_keeps)

lemma DeleteVersion2_unchecked:
  "DeleteVersion2 version False ndb =
     (Return (), (snd (deleteOrphans2 version ndb))
        \<lparr>batch := batch (snd (deleteOrphans2 version ndb)) @ [Delete (rootKey version)]\<rparr>)"
proof -
  obtain s where "deleteOrphans2 version ndb = (Return (), s)"
    using deleteOrphans2_Return [of version ndb] by (cases "deleteOrphans2 version ndb") simp
  then show ?thesis
    by (simp add: DeleteVersion2_def andThen_def deleteRoot_unchecked)
qed

lemma DeleteVersion_unchecked:
  "DeleteVersion version False ndb =
     (Return (), (snd (deleteOrphans version ndb))
        \<lparr>batch := batch (snd (deleteOrphans version ndb)) @ [Delete (rootKey version)]\<rparr>)"
proof -
  obtain s where "deleteOrphans version ndb = (Return (), s)"
    using deleteOrphans_Return [of version ndb] by (cases "deleteOrphans version ndb") simp
  then show ?thesis
    by (simp add: DeleteVersion_def andThen_def deleteRoot_unchecked)
qed

lemma pred_sless:
  assumes "0 <s (v :: int64)"
  shows "v - 1 <s v"
proof -
  have pos: "0 < sint v"
    using assms by (simp add: word_sless_alt)
  have ub: "sint v < 2 ^ 63"
    using sint_lt [of v] by simp
  have "sint (v - 1) = signed_take_bit 63 (sint v - 1)"
    by (simp add: sint_word_diff)
  also have "\<dots> = sint v - 1"
    using pos ub by (intro signed_take_bit_int_eq_self) simp_all
  finally show ?thesis
    by (simp add: word_sless_alt)
qed

lemma sless_of_less:
  assumes "0 <s (v :: int64)" and "a < v"
  shows "a <s v"
proof -
  have pos: "0 < sint v"
    using assms(1) by (simp add: word_sless_alt)
  have ub: "sint v < 2 ^ 63"
    using sint_lt [of v] by simp
  have "uint v = take_bit 64 (sint v)"
    by (simp add: uint_sint)
  also have "\<dots> = sint v"
    using pos ub by (intro take_bit_int_eq_self) simp_all
  finally have uv: "uint v = sint v" .
  have "uint a < uint v"
    using assms(2) by (simp add: word_less_def)
  then have "uint a < 2 ^ 63"
    using uv ub by simp
  moreover have "- (2 ^ 63) \<le> uint a"
    by (rule order_trans [OF _ uint_ge_0]) simp
  ultimately have "signed_take_bit 63 (uint a) = uint a"
    by (intro signed_take_bit_int_eq_self)
  then have "sint a = uint a"
    by (simp add: sint_uint)
  then show ?thesis
    using \<open>uint a < uint v\<close> uv by (simp add: word_sless_alt)
qed

lemma getLatestVersion_idem: "getLatestVersion (snd (getLatestVersion ndb)) = getLatestVersion ndb"
  by (simp add: getLatestVersion_def getPreviousVersion_def Let_def)

lemma getLatestVersion_batch: "batch (snd (getLatestVersion ndb)) = batch ndb"
  by (simp add: getLatestVersion_def Let_def)

lemma latestVersion_getLatestVersion:
  "latestVersion (snd (getLatestVersion ndb)) = fst (getLatestVersion ndb)"
  by (simp add: getLatestVersion_def Let_def)

lemma saveRoot_eq:
  "saveRoot h version ndb =
     (if version = fst (getLatestVersion ndb) + 1
      then (None, updateLatestVersion version
                    ((snd (getLatestVersion ndb))\<lparr>batch := batch ndb @ [Set (rootKey version) h]\<rparr>))
      else (Some (MustSaveConsecutive (fst (getLatestVersion ndb) + 1) version),
            snd (getLatestVersion ndb)))"
proof -
  obtain l s where g: "getLatestVersion ndb = (l, s)"
    by (cases "getLatestVersion ndb")
  have "getLatestVersion s = (l, s)"
    using getLatestVersion_idem [of ndb] g by simp
  moreover have "batch s = batch ndb"
    using getLatestVersion_batch [of ndb] g by simp
  ultimately show ?thesis
    using g by (simp add: saveRoot_def Let_def batch_Set_def)
qed

lemma saveRoot_latest:
  assumes "version = fst (getLatestVersion ndb) + 1" and "0 <s version"
  shows "fst (getLatestVersion (snd (saveRoot h version ndb))) = version"
proof -
  let ?s = "(snd (getLatestVersion ndb))\<lparr>batch := batch ndb @ [Set (rootKey version) h]\<rparr>"
  have "latestVersion ?s = version - 1"
    using assms(1) by (simp add: latestVersion_getLatestVersion)
  then have "latestVersion ?s <s version"
    using pred_sless [OF assms(2)] by simp
  then have "latestVersion (updateLatestVersion version ?s) = version"
    by (simp add: updateLatestVersion_def)
  moreover have "version \<noteq> 0"
    using assms(2) by auto
  ultimately have "fst (getLatestVersion (updateLatestVersion version ?s)) = version"
    by (simp add: getLatestVersion_def Let_def)
  then show ?thesis
    using assms(1) by (simp add: saveRoot_eq)
qed

lemma getPreviousVersioni_empty: "getPreviousVersioni v [] = 0"
  by (simp add: getPreviousVersioni_def ReverseIterator_def db_entries_def)

section \<open>Facts about the orphan traversal and the version index\<close>

lemma forEach_saveOrphan:
  "forEach (\<lambda>(h, fromVersion). saveOrphan h fromVersion toVersion) orphans ndb =
     (if list_all (\<lambda>(h, fromVersion). fromVersion \<le>s toVersion) orphans
      then Return () else Panic ''Orphan expires before it comes alive'',
      ndb\<lparr>batch := batch ndb
           @ map (\<lambda>(h, fromVersion). Set (orphanKey fromVersion toVersion h) h)
               (takeWhile (\<lambda>(h, fromVersion). fromVersion \<le>s toVersion) orphans)\<rparr>)"
proof (induction orphans arbitrary: ndb)
  case Nil
  show ?case by simp
next
  case (Cons x xs)
  obtain h fromVersion where x: "x = (h, fromVersion)"
    by (cases x)
  show ?case
  proof (cases "toVersion <s fromVersion")
    case True
    then show ?thesis
      by (simp add: x saveOrphan_def signed.not_le)
  next
    case False
    then show ?thesis
      by (simp add: x saveOrphan_Return Cons.IH signed.not_less)
  qed
qed

lemmas key_eval = rootKey_bytes orphanKey_bytes nodeKey_bytes Key_def rootKeyFormat_def
  orphanKeyFormat_def nodeKeyFormat_def be64_eval

lemmas db_eval = getPreviousVersion_def getPreviousVersioni_def ReverseIterator_def
  IteratePrefix_def db_entries_def db_Get_def Scan_int64_def int64_of_be_def be_value_def
  batch_Write_def batch_Set_def batch_Delete_def

lemma rooted_eval: "Commit2 (snd (saveRoot [9] 1 emptyStore2)) = emptyStore2\<lparr>db := [(rootKey 1, [9])], latestVersion := 1\<rparr>"
  by (simp add: saveRoot_def getLatestVersion_def emptyStore2_def NewNodeDB2_def Commit2_def
      updateLatestVersion_def Let_def db_eval key_eval word_sless_alt)

lemma second_root_eval: "Commit2 (snd (saveRoot [8] 2 (emptyStore2\<lparr>db := [(rootKey 1, [9])], latestVersion := 1\<rparr>)))
   = emptyStore2\<lparr>db := [(rootKey 1, [9]), (rootKey 2, [8])], latestVersion := 2\<rparr>"
  by (simp add: saveRoot_def getLatestVersion_def emptyStore2_def NewNodeDB2_def Commit2_def
      updateLatestVersion_def Let_def db_eval key_eval word_sless_alt)

lemma latest_deleted_eval: "Commit2 (snd (DeleteVersion2 2 False (emptyStore2\<lparr>db := [(rootKey 1, [9]), (rootKey 2, [8])], latestVersion := 2\<rparr>)))
   = emptyStore2\<lparr>db := [(rootKey 1, [9])], latestVersion := 2\<rparr>"
  by (simp add: DeleteVersion2_def deleteOrphans2_def traverseOrphansVersion_def
      traversePrefix_def andThen_def deleteRoot_def emptyStore2_def NewNodeDB2_def Commit2_def
      Let_def db_eval key_eval)

lemma prunedStore2_eq:
  "prunedStore2 = emptyStore2\<lparr>db := [(rootKey 1, [9])], latestVersion := 2\<rparr>"
  by (simp add: prunedStore2_def rooted_eval second_root_eval latest_deleted_eval)

lemma db_entries_subset: "set (db_entries d) \<subseteq> set d"
  by (auto simp: db_entries_def graph_map_of [symmetric] Map.graph_def dest: map_of_SomeD)

lemma ReverseIterator_head:
  assumes "ReverseIterator d lo hi = (k, v) # rest"
  shows "(k, v) \<in> set d \<and> lo \<le> k \<and> k < hi"
proof -
  have "(k, v) \<in> set (ReverseIterator d lo hi)"
    using assms by simp
  then show ?thesis
    using db_entries_subset [of d] by (auto simp: ReverseIterator_def)
qed

lemma between_root_keys:
  fixes k :: bytes
  assumes "0x72 # lo \<le> k" and "k < 0x72 # hi"
  obtains t where "k = 0x72 # t" and "lo \<le> t" and "t < hi"
proof (cases k)
  case Nil
  with assms(1) show ?thesis by simp
next
  case (Cons c t)
  with assms have "c = 0x72" and "lo \<le> t" and "t < hi"
    by (auto simp: Cons_le_Cons Cons_less_Cons)
  with Cons that show ?thesis by simp
qed

lemma int64_of_be_less:
  assumes "length t = 8" and "t < be64 version"
  shows "int64_of_be t < version"
proof -
  have "be_value t < unat version"
    using assms be_value_mono [of t "be64 version"] by simp
  moreover have "unat version < 2 ^ 64"
    using unsigned_less [of version] by simp
  ultimately have "unat (of_nat (be_value t) :: int64) = be_value t"
    by (simp add: unat_of_nat)
  with \<open>be_value t < unat version\<close> show ?thesis
    by (simp add: int64_of_be_def word_less_nat_alt)
qed

lemma getPreviousVersioni_less:
  assumes "0 <s version" and "rootKeysWellFormed d"
  shows "getPreviousVersioni version d <s version"
proof (cases "ReverseIterator d (rootKey 1) (rootKey version)")
  case Nil
  then show ?thesis
    using assms(1) by (simp add: getPreviousVersioni_def rootKey_def)
next
  case (Cons kv rest)
  obtain k v where kv: "kv = (k, v)"
    by (cases kv)
  from Cons kv have mem: "(k, v) \<in> set d" and lo: "rootKey 1 \<le> k" and hi: "k < rootKey version"
    using ReverseIterator_head [of d "rootKey 1" "rootKey version" k v rest] by simp_all
  have "0x72 # be64 1 \<le> k" and "k < 0x72 # be64 version"
    using lo hi by (simp_all only: rootKey_bytes)
  then obtain t where t: "k = 0x72 # t" "t < be64 version"
    by (rule between_root_keys)
  have "prefix [rootKeyFormat] k \<longrightarrow> length k = 1 + int64Size"
    using assms(2) mem by (auto simp: rootKeysWellFormed_def list_all_iff)
  then have "length k = 9"
    using t(1) by (simp add: rootKeyFormat_def int64Size_def)
  then have "length t = 8"
    using t(1) by simp
  then have "int64_of_be t < version"
    using t(2) by (rule int64_of_be_less)
  with assms(1) have "int64_of_be t <s version"
    by (rule sless_of_less)
  moreover have "getPreviousVersioni version d = int64_of_be t"
    using Cons kv t(1) \<open>length t = 8\<close>
    by (simp add: getPreviousVersioni_def rootKey_def Scan_int64_def int64Size_def)
  ultimately show ?thesis
    by simp
qed

lemma IteratePrefix_orphans:
  assumes "(key, h) \<in> set (IteratePrefix d (Key orphanKeyFormat [I64 version]))"
  shows "Scan_int64 key 0 = version"
proof -
  have "prefix (0x6F # be64 version) key"
    using assms by (simp add: IteratePrefix_def Key_def orphanKeyFormat_def)
  then obtain rest where "key = 0x6F # be64 version @ rest"
    by (auto simp: prefix_def)
  then show ?thesis
    by (simp add: Scan_int64_def int64Size_def)
qed

lemma uncacheNode_batch_update:
  "uncacheNode h (ndb\<lparr>batch := b\<rparr>) = (uncacheNode h ndb)\<lparr>batch := b\<rparr>"
  by (simp add: uncacheNode_def split: option.splits)

lemma restrict_map_all [simp]: "m |` UNIV = m"
  by (rule ext) simp

lemma uncachePruned_Nil [simp]: "uncachePruned p [] ndb = ndb"
  by (simp add: uncachePruned_def prunedHashes_def)

lemma prunedHashes_Cons:
  "prunedHashes p ((key, h) # es)
   = (if orphanPruned p key then h # prunedHashes p es else prunedHashes p es)"
  by (simp add: prunedHashes_def)

text \<open>The traversal removes the nodes one \<open>uncacheNode\<close> at a time; the result is the closed
  form \<open>uncachePruned\<close>.\<close>

lemma uncachePruned_uncacheNode:
  "uncachePruned p es (uncacheNode h ndb)
   = ndb\<lparr>nodeCacheQueue :=
           (nodeCacheQueue ndb)
             \<lparr>elems := filter (\<lambda>e. Some e \<notin> nodeCache ndb ` set (h # prunedHashes p es))
                             (elems (nodeCacheQueue ndb))\<rparr>,
         nodeCache := nodeCache ndb |` (- set (h # prunedHashes p es))\<rparr>"
proof (cases "nodeCache ndb h")
  case None
  have "(Some e \<notin> nodeCache ndb ` set (h # prunedHashes p es))
        = (Some e \<notin> nodeCache ndb ` set (prunedHashes p es))" for e
    using None by auto
  moreover have "nodeCache ndb |` (- set (h # prunedHashes p es))
                 = nodeCache ndb |` (- set (prunedHashes p es))"
    using None by (auto simp: fun_eq_iff restrict_map_def)
  ultimately show ?thesis
    using None by (simp add: uncacheNode_def uncachePruned_def)
next
  case (Some el)
  let ?hs = "set (prunedHashes p es)"
  have "filter (\<lambda>e. Some e \<notin> (nodeCache ndb)(h := None) ` ?hs)
               (filter (\<lambda>x. x \<noteq> el) (elems (nodeCacheQueue ndb)))
        = filter (\<lambda>e. e \<noteq> el \<and> Some e \<notin> (nodeCache ndb)(h := None) ` ?hs)
            (elems (nodeCacheQueue ndb))"
    by (rule filter_filter)
  also have "\<dots> = filter (\<lambda>e. Some e \<notin> nodeCache ndb ` set (h # prunedHashes p es))
                      (elems (nodeCacheQueue ndb))"
  proof (rule filter_cong [OF refl])
    fix e
    show "(e \<noteq> el \<and> Some e \<notin> (nodeCache ndb)(h := None) ` ?hs)
          = (Some e \<notin> nodeCache ndb ` set (h # prunedHashes p es))"
      using Some by (auto simp: image_iff split: if_splits)
  qed
  finally have "filter (\<lambda>e. Some e \<notin> (nodeCache ndb)(h := None) ` ?hs)
               (filter (\<lambda>x. x \<noteq> el) (elems (nodeCacheQueue ndb)))
             = filter (\<lambda>e. Some e \<notin> nodeCache ndb ` set (h # prunedHashes p es))
                 (elems (nodeCacheQueue ndb))" .
  moreover have "(nodeCache ndb)(h := None) |` (- ?hs)
                 = nodeCache ndb |` (- set (h # prunedHashes p es))"
    by (auto simp: fun_eq_iff restrict_map_def)
  ultimately show ?thesis
    using Some by (simp only: uncacheNode_def uncachePruned_def Remove_def) simp
qed

lemma uncachePruned_Cons:
  "uncachePruned p ((key, h) # es) ndb =
     uncachePruned p es (if orphanPruned p key then uncacheNode h ndb else ndb)"
proof (cases "orphanPruned p key")
  case True
  then show ?thesis
    by (simp add: uncachePruned_uncacheNode) (simp add: uncachePruned_def prunedHashes_Cons)
next
  case False
  then show ?thesis
    by (simp add: uncachePruned_def prunedHashes_Cons)
qed

lemma uncachePruned_batch_update:
  "uncachePruned p es (ndb\<lparr>batch := b\<rparr>) = (uncachePruned p es ndb)\<lparr>batch := b\<rparr>"
  by (simp add: uncachePruned_def)

lemma uncachePruned_keeps [simp]:
  "batch (uncachePruned p es ndb) = batch ndb"
  "db (uncachePruned p es ndb) = db ndb"
  "latestVersion (uncachePruned p es ndb) = latestVersion ndb"
  "nodes (uncachePruned p es ndb) = nodes ndb"
  by (simp_all add: uncachePruned_def)

lemma nodeCache_uncacheNode: "nodeCache (uncacheNode h ndb) = (nodeCache ndb)(h := None)"
  by (auto simp: uncacheNode_def split: option.splits)

lemma set_prunedHashes:
  "set (prunedHashes p es) = {h. \<exists>key. (key, h) \<in> set es \<and> orphanPruned p key}"
  by (auto simp: prunedHashes_def image_iff)

lemma nodeCache_uncachePruned:
  "nodeCache (uncachePruned p es ndb)
   = nodeCache ndb |` (- {h. \<exists>key. (key, h) \<in> set es \<and> orphanPruned p key})"
  by (simp add: uncachePruned_def set_prunedHashes)

lemma deleteOrphanEntry_eq:
  "deleteOrphanEntry p (key, h) ndb =
     (Return (),
      (if orphanPruned p key then uncacheNode h ndb else ndb)
        \<lparr>batch := batch ndb @ pruneOps p (key, h)\<rparr>)"
proof (cases "orphanPruned p key")
  case True
  moreover from True have "p <s Scan_int64 key 1 \<or> Scan_int64 key 1 = Scan_int64 key 0"
    by (simp add: orphanPruned_def)
  ultimately show ?thesis
    by (simp add: deleteOrphanEntry_def Let_def pruneOps_def batch_Delete_def
        uncacheNode_batch_update)
next
  case False
  moreover from False
  have c: "\<not> (p <s Scan_int64 key 1 \<or> Scan_int64 key 1 = Scan_int64 key 0)"
    by (simp add: orphanPruned_def)
  then have "\<not> p <s Scan_int64 key 1"
    by simp
  ultimately show ?thesis
    using c by (simp add: deleteOrphanEntry_def Let_def pruneOps_def batch_Delete_def
        saveOrphan_Return)
qed

lemma forEach_deleteOrphanEntry:
  "forEach (deleteOrphanEntry p) es ndb =
     (Return (), (uncachePruned p es ndb)\<lparr>batch := batch ndb @ concat (map (pruneOps p) es)\<rparr>)"
proof (induction es arbitrary: ndb)
  case Nil
  show ?case by simp
next
  case (Cons e es)
  obtain key h where e: "e = (key, h)"
    by (cases e)
  show ?case
    by (simp add: e deleteOrphanEntry_eq Cons.IH uncachePruned_Cons uncachePruned_batch_update
        uncacheNode_batch_update)
qed

lemma deleteOrphans2_eq:
  "deleteOrphans2 version ndb =
     (Return (),
      (uncachePruned (getPreviousVersion version ndb) (expiringAt version (db ndb)) ndb)
        \<lparr>batch := batch ndb
           @ concat (map (pruneOps (getPreviousVersion version ndb)) (expiringAt version (db ndb)))\<rparr>)"
  by (simp add: deleteOrphans2_def traverseOrphansVersion_def traversePrefix_def
      forEach_deleteOrphanEntry expiringAt_def Let_def)

lemma deleteOrphans_eq:
  "deleteOrphans version ndb =
     (Return (),
      (uncachePruned (getPreviousVersion version ndb) (expiringAt version (db ndb)) ndb)
        \<lparr>batch := batch ndb
           @ concat (map (pruneOps (getPreviousVersion version ndb)) (expiringAt version (db ndb)))\<rparr>)"
  by (simp add: deleteOrphans_def deleteOrphansWithPredecessor_def traverseOrphansVersion_def
      traversePrefix_def forEach_deleteOrphanEntry expiringAt_def Let_def)

lemma expiringAt_last: "list_all (\<lambda>(key, h). Scan_int64 key 0 = version) (expiringAt version d)"
  by (auto simp: list_all_iff expiringAt_def dest: IteratePrefix_orphans)

lemma getLatestVersion_eq:
  "getLatestVersion ndb =
     (fst (getLatestVersion ndb), ndb\<lparr>latestVersion := fst (getLatestVersion ndb)\<rparr>)"
  by (simp add: getLatestVersion_def Let_def)

lemma deleteRoot_latest:
  assumes "version = fst (getLatestVersion ndb)"
  shows "deleteRoot version True ndb
         = (Panic ''Tried to delete latest version'', ndb\<lparr>latestVersion := version\<rparr>)"
proof -
  have "getLatestVersion ndb = (version, ndb\<lparr>latestVersion := version\<rparr>)"
    using getLatestVersion_eq [of ndb] assms by simp
  then show ?thesis
    by (simp add: deleteRoot_def)
qed

lemma deleteRoot_not_latest:
  assumes "version \<noteq> fst (getLatestVersion ndb)"
  shows "deleteRoot version True ndb
         = (Return (), ndb\<lparr>latestVersion := fst (getLatestVersion ndb),
                            batch := batch ndb @ [Delete (rootKey version)]\<rparr>)"
proof -
  obtain l s where g: "getLatestVersion ndb = (l, s)"
    by (cases "getLatestVersion ndb")
  then have "s = ndb\<lparr>latestVersion := l\<rparr>"
    using getLatestVersion_eq [of ndb] by simp
  then show ?thesis
    using assms g by (simp add: deleteRoot_def batch_Delete_def)
qed

lemma DeleteVersion2_latest:
  assumes "version = fst (getLatestVersion ndb)"
  shows "DeleteVersion2 version True ndb
         = (Panic ''Tried to delete latest version'',
            (snd (deleteOrphans2 version ndb))\<lparr>latestVersion := version\<rparr>)"
proof -
  obtain s where s: "deleteOrphans2 version ndb = (Return (), s)"
    using deleteOrphans2_Return [of version ndb] by (cases "deleteOrphans2 version ndb") simp
  have "db s = db ndb" "latestVersion s = latestVersion ndb"
    using deleteOrphans2_keeps [of version ndb] s by simp_all
  then have "fst (getLatestVersion s) = fst (getLatestVersion ndb)"
    by (rule getLatestVersion_db_only)
  then have "deleteRoot version True s
             = (Panic ''Tried to delete latest version'', s\<lparr>latestVersion := version\<rparr>)"
    using assms by (intro deleteRoot_latest) simp
  then show ?thesis
    using s by (simp add: DeleteVersion2_def andThen_def)
qed

lemma DeleteVersion_latest:
  assumes "version = fst (getLatestVersion ndb)"
  shows "DeleteVersion version True ndb
         = (Panic ''Tried to delete latest version'',
            (snd (deleteOrphans version ndb))\<lparr>latestVersion := version\<rparr>)"
proof -
  obtain s where s: "deleteOrphans version ndb = (Return (), s)"
    using deleteOrphans_Return [of version ndb] by (cases "deleteOrphans version ndb") simp
  have "db s = db ndb" "latestVersion s = latestVersion ndb"
    using deleteOrphans_keeps [of version ndb] s by simp_all
  then have "fst (getLatestVersion s) = fst (getLatestVersion ndb)"
    by (rule getLatestVersion_db_only)
  then have "deleteRoot version True s
             = (Panic ''Tried to delete latest version'', s\<lparr>latestVersion := version\<rparr>)"
    using assms by (intro deleteRoot_latest) simp
  then show ?thesis
    using s by (simp add: DeleteVersion_def andThen_def)
qed

lemmas store_eval = emptyStore2_def NewNodeDB2_def Commit2_def saveRoot_def getLatestVersion_def
  updateLatestVersion_def SaveOrphans2_def saveOrphan_def Let_def db_eval key_eval
  word_sless_alt

lemma rootedStore2_eq:
  "rootedStore2 = emptyStore2\<lparr>db := [(rootKey 1, [9])], latestVersion := 1\<rparr>"
  by (simp add: rootedStore2_def store_eval)

lemma orphanedStore2_eq:
  "orphanedStore2
   = emptyStore2\<lparr>db := [(rootKey 1, [9]), (orphanKey 1 1 [7], [7])], latestVersion := 1\<rparr>"
  by (simp add: orphanedStore2_def rootedStore2_eq) (simp add: store_eval)

section \<open>Facts about deleting a version from memory\<close>

lemma deleteUnsavedOrphan_keeps:
  "db (fst (snd (deleteUnsavedOrphan toVersion p hv st))) = db (fst st)"
  "latestVersion (fst (snd (deleteUnsavedOrphan toVersion p hv st))) = latestVersion (fst st)"
  by (cases hv; cases st; simp add: deleteUnsavedOrphan_def Let_def saveOrphan_def)+

lemma traverse_deleteOrphanEntry_keeps:
  "db (snd (traverseOrphansVersion version (deleteOrphanEntry p) ndb)) = db ndb"
  "latestVersion (snd (traverseOrphansVersion version (deleteOrphanEntry p) ndb))
   = latestVersion ndb"
  by (simp_all add: traverseOrphansVersion_def traversePrefix_def forEach_keeps
      deleteOrphanEntry_keeps)

lemma deleteOrphansWithPredecessor_keeps:
  "db (fst (snd (deleteOrphansWithPredecessor version p unsaved ndb))) = db ndb
   \<and> latestVersion (fst (snd (deleteOrphansWithPredecessor version p unsaved ndb)))
       = latestVersion ndb"
proof -
  obtain r s where t: "traverseOrphansVersion version (deleteOrphanEntry p) ndb = (r, s)"
    by (cases "traverseOrphansVersion version (deleteOrphanEntry p) ndb")
  then have s: "db s = db ndb" "latestVersion s = latestVersion ndb"
    using traverse_deleteOrphanEntry_keeps [of version p ndb] by simp_all
  show ?thesis
  proof (cases unsaved)
    case None
    then show ?thesis
      using t s by (cases r) (simp_all add: deleteOrphansWithPredecessor_def)
  next
    case (Some m)
    define tv where "tv = (if 1 <s version then version + 1 else version)"
    obtain r' s' m' where f: "forEach (deleteUnsavedOrphan tv p) m (s, m) = (r', s', m')"
      by (cases "forEach (deleteUnsavedOrphan tv p) m (s, m)") auto
    have "db (fst (snd (forEach (deleteUnsavedOrphan tv p) m (s, m)))) = db (fst (s, m))"
      by (rule forEach_keeps [where g = "\<lambda>st. db (fst st)"]) (rule deleteUnsavedOrphan_keeps)
    moreover
    have "latestVersion (fst (snd (forEach (deleteUnsavedOrphan tv p) m (s, m))))
          = latestVersion (fst (s, m))"
      by (rule forEach_keeps [where g = "\<lambda>st. latestVersion (fst st)"])
        (rule deleteUnsavedOrphan_keeps)
    ultimately have "db s' = db ndb" "latestVersion s' = latestVersion ndb"
      using f s by simp_all
    then show ?thesis
      using t s Some f
      by (cases r) (simp_all add: deleteOrphansWithPredecessor_def Let_def tv_def [symmetric])
  qed
qed

lemma DeleteMemoryVersion_keeps:
  "db (fst (snd (DeleteMemoryVersion version previous unsaved ndb))) = db ndb
   \<and> latestVersion (fst (snd (DeleteMemoryVersion version previous unsaved ndb)))
       = latestVersion ndb"
proof -
  obtain r s m where d: "deleteOrphansWithPredecessor version previous unsaved ndb = (r, s, m)"
    by (cases "deleteOrphansWithPredecessor version previous unsaved ndb") auto
  then have "db s = db ndb \<and> latestVersion s = latestVersion ndb"
    using deleteOrphansWithPredecessor_keeps [of version previous unsaved ndb] by simp
  then show ?thesis
    using d by (cases r) (simp_all add: DeleteMemoryVersion_def deleteRoot_unchecked)
qed

lemma updateLatestVersion_grows: "latestVersion ndb \<le>s latestVersion (updateLatestVersion v ndb)"
  by (simp add: updateLatestVersion_def signed.less_imp_le)

section \<open>Facts about the predecessor\<close>

lemma sorted_le_last: "sorted xs \<Longrightarrow> x \<in> set xs \<Longrightarrow> x \<le> last xs"
  by (induction xs) auto

lemma be_value_inj:
  assumes "length xs = length ys" and "be_value xs = be_value ys"
  shows "xs = ys"
proof -
  have "\<not> xs < ys" and "\<not> ys < xs"
    using assms be_value_mono [of xs ys] be_value_mono [of ys xs] by simp_all
  then show ?thesis
    by simp
qed

lemma be64_int64_of_be:
  assumes "length t = 8"
  shows "be64 (int64_of_be t) = t"
proof -
  have "be_value t < 256 ^ 8"
    using be_value_less [of t] assms by simp
  then have "unat (of_nat (be_value t) :: int64) = be_value t"
    by (simp add: unat_of_nat)
  then have "be_value (be64 (int64_of_be t)) = be_value t"
    by (simp add: int64_of_be_def)
  then show ?thesis
    using assms by (intro be_value_inj) simp_all
qed

lemma be64_less_iff: "(be64 a < be64 b) = (a < b)"
  using be_value_mono [of "be64 a" "be64 b"] by (simp add: word_less_nat_alt)

lemma rootKey_less_iff: "(rootKey a < rootKey b) = (a < b)"
  by (simp add: rootKey_bytes be64_less_iff)

lemma rootKey_le_iff: "(rootKey a \<le> rootKey b) = (a \<le> b)"
  using rootKey_less_iff [of b a] by (simp add: not_less [symmetric])

lemma uint_eq_sint:
  assumes "0 \<le> sint (w :: int64)"
  shows "uint w = sint w"
proof -
  have "sint w < 2 ^ 63"
    using sint_lt [of w] by simp
  then have "take_bit 64 (sint w) = sint w"
    using assms by (intro take_bit_int_eq_self) simp_all
  then show ?thesis
    by (simp add: uint_sint)
qed

lemma sint_eq_uint:
  assumes "uint (w :: int64) < 2 ^ 63"
  shows "sint w = uint w"
proof -
  have "- (2 ^ 63) \<le> uint w"
    by (rule order_trans [OF _ uint_ge_0]) simp
  then have "signed_take_bit 63 (uint w) = uint w"
    using assms by (intro signed_take_bit_int_eq_self)
  then show ?thesis
    by (simp add: sint_uint)
qed

lemma positive_range:
  assumes "0 <s (version :: int64)"
  shows "(1 \<le> v \<and> v < version) = (1 \<le>s v \<and> v <s version)"
proof -
  have sv: "uint version = sint version"
    using assms by (intro uint_eq_sint) (simp add: word_sless_alt)
  have ub: "sint version < 2 ^ 63"
    using sint_lt [of version] by simp
  show ?thesis
  proof
    assume a: "1 \<le> v \<and> v < version"
    then have "uint v < uint version" and "1 \<le> uint v"
      by (simp_all add: word_less_def word_le_def)
    moreover from this have "sint v = uint v"
      using sv ub by (intro sint_eq_uint) simp
    ultimately show "1 \<le>s v \<and> v <s version"
      using sv by (simp add: word_sless_alt word_sle_eq)
  next
    assume a: "1 \<le>s v \<and> v <s version"
    then have "1 \<le> sint v" and "sint v < sint version"
      by (simp_all add: word_sless_alt word_sle_eq)
    moreover from this have "uint v = sint v"
      by (intro uint_eq_sint) simp
    ultimately show "1 \<le> v \<and> v < version"
      using sv by (simp add: word_less_def word_le_def)
  qed
qed

lemma hasRoot_iff: "hasRoot d v = (rootKey v \<in> fst ` set d)"
  by (simp add: hasRoot_def db_Get_def map_of_eq_None_iff)

lemma fst_db_entries: "fst ` set (db_entries d) = fst ` set d"
  by (simp add: db_entries_def dom_clearjunk)

lemma sorted_db_entries: "sorted (map fst (db_entries d))"
  by (simp add: db_entries_def sorted_sort_key)

lemma rev_last_Cons: "xs \<noteq> [] \<Longrightarrow> rev xs = last xs # rev (butlast xs)"
  by (induction xs rule: rev_induct) simp_all

lemma root_key_in_range:
  assumes "(k, x) \<in> set d" and "rootKeysWellFormed d"
    and "rootKey 1 \<le> k" and "k < rootKey version"
  obtains p where "k = rootKey p" and "1 \<le> p" and "p < version"
proof -
  have "0x72 # be64 1 \<le> k" and "k < 0x72 # be64 version"
    using assms(3,4) by (simp_all only: rootKey_bytes)
  then obtain t where t: "k = 0x72 # t"
    by (rule between_root_keys)
  have "prefix [rootKeyFormat] k \<longrightarrow> length k = 1 + int64Size"
    using assms(1,2) by (auto simp: rootKeysWellFormed_def list_all_iff)
  then have "length t = 8"
    using t by (simp add: rootKeyFormat_def int64Size_def)
  then have k: "k = rootKey (int64_of_be t)"
    using t by (simp add: rootKey_bytes be64_int64_of_be)
  moreover have "1 \<le> int64_of_be t"
    using assms(3) unfolding k by (simp only: rootKey_le_iff)
  moreover have "int64_of_be t < version"
    using assms(4) unfolding k by (simp only: rootKey_less_iff)
  ultimately show ?thesis
    by (rule that)
qed

lemma getPreviousVersioni_cases:
  assumes "rootKeysWellFormed d"
  shows "(getPreviousVersioni version d = 0
          \<and> (\<forall>v. 1 \<le> v \<and> v < version \<longrightarrow> \<not> hasRoot d v))
       \<or> (hasRoot d (getPreviousVersioni version d)
          \<and> 1 \<le> getPreviousVersioni version d \<and> getPreviousVersioni version d < version
          \<and> (\<forall>v. getPreviousVersioni version d < v \<and> v < version \<longrightarrow> \<not> hasRoot d v))"
proof -
  let ?P = "\<lambda>(k, x). rootKey 1 \<le> k \<and> k < rootKey version"
  let ?F = "filter ?P (db_entries d)"
  have rev: "ReverseIterator d (Key rootKeyFormat [I64 1]) (Key rootKeyFormat [I64 version])
             = rev ?F"
    by (simp add: ReverseIterator_def rootKey_def)
  have sortedF: "sorted (map fst ?F)"
    using sorted_db_entries [of d] by (rule sorted_filter)
  have inF: "rootKey v \<in> fst ` set ?F" if "hasRoot d v" and "1 \<le> v" and "v < version" for v
  proof -
    have "rootKey v \<in> fst ` set (db_entries d)"
      using that(1) by (simp add: hasRoot_iff fst_db_entries)
    then obtain x where "(rootKey v, x) \<in> set (db_entries d)"
      by force
    moreover have "rootKey 1 \<le> rootKey v" and "rootKey v < rootKey version"
      using that(2,3) by (simp_all add: rootKey_le_iff rootKey_less_iff)
    ultimately have "(rootKey v, x) \<in> set ?F"
      by simp
    then show ?thesis
      by force
  qed
  show ?thesis
  proof (cases "?F = []")
    case True
    then have "getPreviousVersioni version d = 0"
      by (simp add: getPreviousVersioni_def rev)
    moreover have "\<not> hasRoot d v" if "1 \<le> v \<and> v < version" for v
      using inF [of v] that True by auto
    ultimately show ?thesis
      by blast
  next
    case False
    obtain k x where last: "last ?F = (k, x)"
      by (cases "last ?F")
    have rv: "rev ?F = (k, x) # rev (butlast ?F)"
      using rev_last_Cons [OF False] last by simp
    have mem: "(k, x) \<in> set ?F"
      using False last last_in_set [of ?F] by simp
    then have kd: "(k, x) \<in> set d" and lo: "rootKey 1 \<le> k" and hi: "k < rootKey version"
      using db_entries_subset [of d] by auto
    from kd assms lo hi obtain p where p: "k = rootKey p" "1 \<le> p" "p < version"
      by (rule root_key_in_range)
    have gp: "getPreviousVersioni version d = p"
      by (simp add: getPreviousVersioni_def rev rv p(1) Scan_rootKey)
    have "hasRoot d p"
      using \<open>(k, x) \<in> set d\<close> p(1) by (force simp: hasRoot_iff)
    moreover have "\<not> hasRoot d v" if "p < v \<and> v < version" for v
    proof
      assume "hasRoot d v"
      moreover have "1 \<le> v"
        using p(2) that by (meson less_imp_le order_trans)
      ultimately have "rootKey v \<in> set (map fst ?F)"
        using inF [of v] that by simp
      then have "rootKey v \<le> last (map fst ?F)"
        using sortedF by (intro sorted_le_last)
      also have "last (map fst ?F) = k"
        using False last by (simp add: last_map)
      finally have "v \<le> p"
        by (simp add: p(1) rootKey_le_iff)
      with that show False
        by (meson leD)
    qed
    ultimately show ?thesis
      using p(2,3) gp by blast
  qed
qed

lemma sint_pred:
  assumes "0 <s (v :: int64)"
  shows "sint (v - 1) = sint v - 1"
proof -
  have pos: "0 < sint v"
    using assms by (simp add: word_sless_alt)
  have ub: "sint v < 2 ^ 63"
    using sint_lt [of v] by simp
  have "sint (v - 1) = signed_take_bit 63 (sint v - 1)"
    by (simp add: sint_word_diff)
  also have "\<dots> = sint v - 1"
    using pos ub by (intro signed_take_bit_int_eq_self) simp_all
  finally show ?thesis .
qed

lemma getPreviousVersioni_isPredecessor:
  assumes pos: "0 <s version" and wf: "rootKeysWellFormed d"
  shows "isPredecessor d version (getPreviousVersioni version d)"
proof -
  let ?p = "getPreviousVersioni version d"
  from getPreviousVersioni_cases [OF wf, of version]
  consider (none) "?p = 0" "\<forall>v. 1 \<le> v \<and> v < version \<longrightarrow> \<not> hasRoot d v"
    | (some) "hasRoot d ?p" "1 \<le> ?p" "?p < version"
        "\<forall>v. ?p < v \<and> v < version \<longrightarrow> \<not> hasRoot d v"
    by blast
  then show ?thesis
  proof cases
    case none
    have "\<not> (\<exists>v. 1 \<le>s v \<and> v <s version \<and> hasRoot d v)"
      using none(2) positive_range [OF pos] by blast
    then show ?thesis
      unfolding isPredecessor_def using none(1) by (simp only: if_not_P) simp
  next
    case some
    have sp: "1 \<le>s ?p \<and> ?p <s version"
      using some(2,3) positive_range [OF pos, of ?p] by blast
    have "\<not> hasRoot d v" if "?p <s v \<and> v <s version" for v
    proof -
      have "1 \<le>s v"
        using sp that by (meson signed.less_imp_le signed.order_trans)
      then have v: "1 \<le> v \<and> v < version"
        using that positive_range [OF pos, of v] by blast
      have "0 <s v"
        using \<open>1 \<le>s v\<close> by (simp add: word_sless_alt word_sle_eq)
      then have "?p < v"
        using positive_range [of v ?p] sp that by blast
      with v some(4) show ?thesis
        by blast
    qed
    moreover have "\<exists>v. 1 \<le>s v \<and> v <s version \<and> hasRoot d v"
      using some(1) sp by blast
    ultimately show ?thesis
      unfolding isPredecessor_def using some(1) sp by (simp only: if_P) blast
  qed
qed

lemma getPreviousVersioni_pred:
  assumes "1 <s version" and "rootKeysWellFormed d" and "hasRoot d (version - 1)"
  shows "getPreviousVersioni version d = version - 1"
proof -
  let ?p = "getPreviousVersioni version d"
  have pos: "0 <s version"
    using assms(1) by (simp add: word_sless_alt)
  have sv: "sint (version - 1) = sint version - 1"
    using pos by (rule sint_pred)
  have one: "sint (1 :: int64) = 1"
    by simp
  have v1: "1 \<le>s version - 1 \<and> version - 1 <s version"
    using assms(1) sv by (simp add: word_sless_alt word_sle_eq)
  have "isPredecessor d version ?p"
    using pos assms(2) by (rule getPreviousVersioni_isPredecessor)
  moreover have "\<exists>v. 1 \<le>s v \<and> v <s version \<and> hasRoot d v"
    using v1 assms(3) by blast
  ultimately have "hasRoot d ?p \<and> 1 \<le>s ?p \<and> ?p <s version
      \<and> (\<forall>v. ?p <s v \<and> v <s version \<longrightarrow> \<not> hasRoot d v)"
    unfolding isPredecessor_def by (simp only: if_P) blast
  then have p: "?p <s version" "\<forall>v. ?p <s v \<and> v <s version \<longrightarrow> \<not> hasRoot d v"
    by blast+
  have "\<not> ?p <s version - 1"
    using p(2) v1 assms(3) by blast
  moreover have "?p \<le>s version - 1"
    using p(1) sv by (simp add: word_sless_alt word_sle_eq)
  ultimately show ?thesis
    by (simp add: signed.le_less)
qed

section \<open>Facts about the cache\<close>

lemma evictOldest_Cons:
  "elems (nodeCacheQueue ndb) = oldest # rest \<Longrightarrow>
   evictOldest ndb =
     (Return (),
      ndb\<lparr>nodeCacheQueue := Remove oldest (nodeCacheQueue ndb),
          nodeCache := (nodeCache ndb)(string_of (hash (nodeAt (snd oldest) ndb)) := None)\<rparr>)"
  by (simp add: evictOldest_def Front_def)

lemma Len_Remove_head:
  "elems q = oldest # rest \<Longrightarrow> Len (Remove oldest q) \<le> length rest"
  by (simp add: Len_def Remove_def)

lemma pushed_nonempty:
  "\<exists>oldest rest. elems (snd (PushBack node q)) = oldest # rest \<and> length rest = Len q"
  by (cases "elems q") (simp_all add: PushBack_def Let_def Len_def)

lemma Len_PushBack: "Len (snd (PushBack node q)) = Suc (Len q)"
  by (simp add: PushBack_def Let_def Len_def)

lemma cacheNode2_eq:
  "cacheNode2 node ndb =
     (if nodeCacheSize ndb < int (Suc (Len (nodeCacheQueue ndb)))
      then evictOldest (pushed node ndb) else (Return (), pushed node ndb))"
proof -
  obtain a b where pb: "PushBack node (nodeCacheQueue ndb) = (a, b)"
    by (cases "PushBack node (nodeCacheQueue ndb)")
  then have "Len b = Suc (Len (nodeCacheQueue ndb))"
    using Len_PushBack [of node "nodeCacheQueue ndb"] by simp
  then show ?thesis
    by (simp add: cacheNode2_def pushed_def pb Let_def)
qed

lemma cacheNode_eq:
  "cacheNode node ndb =
     (if \<not> nodeCacheOnlyFlushOnSave ndb \<and> nodeCacheSize ndb < int (Suc (Len (nodeCacheQueue ndb)))
      then evictOldest (pushed node ndb) else (Return (), pushed node ndb))"
proof -
  obtain a b where pb: "PushBack node (nodeCacheQueue ndb) = (a, b)"
    by (cases "PushBack node (nodeCacheQueue ndb)")
  then have "Len b = Suc (Len (nodeCacheQueue ndb))"
    using Len_PushBack [of node "nodeCacheQueue ndb"] by simp
  then show ?thesis
    by (simp add: cacheNode_def pushed_def pb Let_def)
qed

lemma evictOldest_pushed:
  "fst (evictOldest (pushed node ndb)) = Return ()
   \<and> Len (nodeCacheQueue (snd (evictOldest (pushed node ndb)))) \<le> Len (nodeCacheQueue ndb)
   \<and> nodeCacheSize (snd (evictOldest (pushed node ndb))) = nodeCacheSize ndb"
proof -
  obtain oldest rest
    where e: "elems (nodeCacheQueue (pushed node ndb)) = oldest # rest"
      and l: "length rest = Len (nodeCacheQueue ndb)"
    using pushed_nonempty [of node "nodeCacheQueue ndb"] by (auto simp: pushed_def)
  have ev: "evictOldest (pushed node ndb) =
     (Return (),
      (pushed node ndb)\<lparr>nodeCacheQueue := Remove oldest (nodeCacheQueue (pushed node ndb)),
          nodeCache := (nodeCache (pushed node ndb))
                         (string_of (hash (nodeAt (snd oldest) (pushed node ndb))) := None)\<rparr>)"
    by (rule evictOldest_Cons [OF e])
  have "nodeCacheSize (pushed node ndb) = nodeCacheSize ndb"
    by (simp add: pushed_def)
  then show ?thesis
    unfolding ev using Len_Remove_head [OF e] l by simp
qed

lemma cacheNode2_bound:
  "fst (cacheNode2 node ndb) = Return ()
   \<and> nodeCacheSize (snd (cacheNode2 node ndb)) = nodeCacheSize ndb
   \<and> int (Len (nodeCacheQueue (snd (cacheNode2 node ndb))))
       \<le> max (int (Len (nodeCacheQueue ndb))) (nodeCacheSize ndb)"
  using evictOldest_pushed [of node ndb]
  by (auto simp: cacheNode2_eq pushed_def Len_PushBack)

lemma cacheNode_bound:
  "fst (cacheNode node ndb) = Return ()
   \<and> nodeCacheSize (snd (cacheNode node ndb)) = nodeCacheSize ndb
   \<and> nodeCacheOnlyFlushOnSave (snd (cacheNode node ndb)) = nodeCacheOnlyFlushOnSave ndb
   \<and> (\<not> nodeCacheOnlyFlushOnSave ndb \<longrightarrow>
        int (Len (nodeCacheQueue (snd (cacheNode node ndb))))
        \<le> max (int (Len (nodeCacheQueue ndb))) (nodeCacheSize ndb))"
  using evictOldest_pushed [of node ndb]
  by (auto simp: cacheNode_eq pushed_def Len_PushBack evictOldest_def split: option.splits)

lemma cacheConsistent_pushed: "cacheConsistent ndb \<Longrightarrow> cacheConsistent (pushed node ndb)"
  by (auto simp: cacheConsistent_def pushed_def PushBack_def Let_def nodeAt_def)

lemma cacheConsistent_evictOldest:
  "cacheConsistent ndb \<Longrightarrow> cacheConsistent (snd (evictOldest ndb))"
  by (auto simp: cacheConsistent_def evictOldest_def Remove_def nodeAt_def split: option.splits)

lemma cacheConsistent_uncacheNode:
  assumes "cacheConsistent ndb"
  shows "cacheConsistent (uncacheNode h ndb)"
proof (cases "nodeCache ndb h")
  case None
  then show ?thesis
    using assms by (simp add: uncacheNode_def)
next
  case (Some e)
  have "e' \<noteq> e" if "nodeCache ndb h' = Some e'" and "h' \<noteq> h" for h' e'
    using that Some \<open>cacheConsistent ndb\<close> unfolding cacheConsistent_def by metis
  then show ?thesis
    using Some \<open>cacheConsistent ndb\<close>
    by (auto simp: cacheConsistent_def uncacheNode_def Remove_def nodeAt_def)
qed

lemma set_MoveToBack: "set (elems (MoveToBack e q)) = set (elems q)"
  by (auto simp: MoveToBack_def)

lemma Len_MoveToBack: "Len (MoveToBack e q) \<le> Len q"
proof (cases "e \<in> set (elems q)")
  case True
  then have "length (filter (\<lambda>x. x \<noteq> e) (elems q)) < length (elems q)"
    by (intro length_filter_less [of e]) simp_all
  with True show ?thesis
    by (simp add: MoveToBack_def Len_def)
next
  case False
  then show ?thesis
    by (simp add: MoveToBack_def)
qed

lemma last_MoveToBack: "e \<in> set (elems q) \<Longrightarrow> last (elems (MoveToBack e q)) = e"
  by (simp add: MoveToBack_def)

lemma card_nodeCache:
  assumes "cacheConsistent ndb"
  shows "card (dom (nodeCache ndb)) \<le> Len (nodeCacheQueue ndb)"
proof -
  let ?f = "\<lambda>e :: Element. string_of (hash (nodeAt (snd e) ndb))"
  have "dom (nodeCache ndb) \<subseteq> ?f ` set (elems (nodeCacheQueue ndb))"
    using assms by (force simp: cacheConsistent_def)
  then have "card (dom (nodeCache ndb)) \<le> card (?f ` set (elems (nodeCacheQueue ndb)))"
    by (intro card_mono) simp_all
  also have "\<dots> \<le> card (set (elems (nodeCacheQueue ndb)))"
    by (intro card_image_le) simp
  also have "\<dots> \<le> length (elems (nodeCacheQueue ndb))"
    by (rule card_length)
  finally show ?thesis
    by (simp add: Len_def)
qed

lemma cacheNode2_within:
  assumes "cacheWithinLimit ndb"
  shows "cacheWithinLimit (snd (cacheNode2 node ndb))"
  using assms cacheNode2_bound [of node ndb] by (simp add: cacheWithinLimit_def)

lemma cacheNode_within:
  assumes "cacheWithinLimit ndb" and "\<not> nodeCacheOnlyFlushOnSave ndb"
  shows "cacheWithinLimit (snd (cacheNode node ndb))"
  using assms cacheNode_bound [of node ndb] by (simp add: cacheWithinLimit_def)

lemma cacheNode2_consistent:
  "cacheConsistent ndb \<Longrightarrow> cacheConsistent (snd (cacheNode2 node ndb))"
  by (simp add: cacheNode2_eq cacheConsistent_pushed cacheConsistent_evictOldest)

lemma cacheNode_consistent:
  "cacheConsistent ndb \<Longrightarrow> cacheConsistent (snd (cacheNode node ndb))"
  by (simp add: cacheNode_eq cacheConsistent_pushed cacheConsistent_evictOldest)

lemma cacheNode2_Return: "cacheNode2 node ndb = (Return (), snd (cacheNode2 node ndb))"
  using cacheNode2_bound [of node ndb] by (cases "cacheNode2 node ndb") simp

lemma cacheNode_Return: "cacheNode node ndb = (Return (), snd (cacheNode node ndb))"
  using cacheNode_bound [of node ndb] by (cases "cacheNode node ndb") simp

lemma evictOldest_nodes [simp]: "nodes (snd (evictOldest ndb)) = nodes ndb"
  by (simp add: evictOldest_def split: option.splits)

lemma pushed_nodes [simp]: "nodes (pushed node ndb) = nodes ndb"
  by (simp add: pushed_def)

lemma cacheNode2_nodes [simp]: "nodes (snd (cacheNode2 node ndb)) = nodes ndb"
  by (simp add: cacheNode2_eq)

lemma cacheNode_nodes [simp]: "nodes (snd (cacheNode node ndb)) = nodes ndb"
  by (simp add: cacheNode_eq)

lemma andThen_Return [simp]: "andThen (Return x, s) f = f s"
  by (simp add: andThen_def)

lemma andThen_Panic [simp]: "andThen (Panic m, s) f = (Panic m, s)"
  by (simp add: andThen_def)

text \<open>The store in which \<open>GetNode\<close> caches the node it has decoded: the node is new in the
  memory, with the hash asked for, and marked as persisted.\<close>

lemma GetNode2_eq:
  "GetNode2 MakeNode h ndb =
     (if h = [] then (Panic ''nodeDB.GetNode() requires hash'', ndb)
      else case nodeCache ndb h of
        Some elem \<Rightarrow>
          (Return (snd elem), ndb\<lparr>nodeCacheQueue := MoveToBack elem (nodeCacheQueue ndb)\<rparr>)
      | None \<Rightarrow>
          (case db_Get (db ndb) (nodeKey h) of
             None \<Rightarrow> (Panic ''Value missing for hash'', ndb)
           | Some buf \<Rightarrow>
               (case MakeNode buf (getLeafValueCb ndb) of
                  Inl err \<Rightarrow> (Panic ''Error reading Node'', ndb)
                | Inr node \<Rightarrow>
                    (Return (length (nodes ndb)),
                     snd (cacheNode2 (length (nodes ndb))
                            (ndb\<lparr>nodes := nodes ndb
                                   @ [node\<lparr>hash := Some h, persisted := True\<rparr>]\<rparr>))))))"
proof -
  have r: "(case cacheNode2 n s of (Return x, s') \<Rightarrow> (Return n, s') | (Panic m, s') \<Rightarrow> (Panic m, s'))
           = (Return n, snd (cacheNode2 n s))" for n and s :: "'a nodeDB2"
    by (subst cacheNode2_Return) simp
  show ?thesis
    by (simp add: GetNode2_def getCachedNode_def Let_def r newNode_def setNode_def
        split: option.splits sum.splits)
qed

lemma GetNode_eq:
  "GetNode MakeNode h ndb =
     (if h = [] then (Panic ''nodeDB.GetNode() requires hash'', ndb)
      else case nodeCache ndb h of
        Some elem \<Rightarrow>
          (Return (snd elem), ndb\<lparr>nodeCacheQueue := MoveToBack elem (nodeCacheQueue ndb)\<rparr>)
      | None \<Rightarrow>
          (case (case memNodes ndb of None \<Rightarrow> None | Some m \<Rightarrow> m h) of
             Some node \<Rightarrow>
               (Return node,
                snd (cacheNode node (setNode node (\<lambda>n. n\<lparr>hash := Some h\<rparr>) ndb)))
           | None \<Rightarrow>
               (case db_Get (db ndb) (nodeKey h) of
                  None \<Rightarrow> (Panic ''Value missing for hash'', ndb)
                | Some buf \<Rightarrow>
                    (case MakeNode buf (getLeafValueCb ndb) of
                       Inl err \<Rightarrow> (Panic ''Error reading Node'', ndb)
                     | Inr node \<Rightarrow>
                         (Return (length (nodes ndb)),
                          snd (cacheNode (length (nodes ndb))
                                 (ndb\<lparr>nodes := nodes ndb
                                        @ [node\<lparr>hash := Some h, persisted := True\<rparr>]\<rparr>)))))))"
proof -
  have r: "(case cacheNode n s of (Return x, s') \<Rightarrow> (Return n, s') | (Panic m, s') \<Rightarrow> (Panic m, s'))
           = (Return n, snd (cacheNode n s))" for n and s :: "'a nodeDB"
    by (subst cacheNode_Return) simp
  have upd: "node\<lparr>persisted := True, hash := Some h\<rparr> = node\<lparr>hash := Some h, persisted := True\<rparr>"
    for node :: "'a Node"
    by simp
  show ?thesis
    by (simp add: GetNode_def Let_def r newNode_def setNode_def upd
        split: option.splits sum.splits)
qed

lemma cacheWithinLimit_batch [simp]:
  "cacheWithinLimit (ndb\<lparr>batch := b\<rparr>) = cacheWithinLimit ndb"
  by (simp add: cacheWithinLimit_def)

lemma cacheWithinLimit_memNodes [simp]:
  "cacheWithinLimit (ndb\<lparr>memNodes := m\<rparr>) = cacheWithinLimit ndb"
  by (simp add: cacheWithinLimit_def)

lemma setNode_keeps [simp]:
  "db (setNode p f ndb) = db ndb"
  "batch (setNode p f ndb) = batch ndb"
  "latestVersion (setNode p f ndb) = latestVersion ndb"
  "nodeCache (setNode p f ndb) = nodeCache ndb"
  "nodeCacheSize (setNode p f ndb) = nodeCacheSize ndb"
  "nodeCacheQueue (setNode p f ndb) = nodeCacheQueue ndb"
  "getLeafValueCb (setNode p f ndb) = getLeafValueCb ndb"
  "length (nodes (setNode p f ndb)) = length (nodes ndb)"
  by (simp_all add: setNode_def)

lemma setNode_keeps_more [simp]:
  fixes ndb :: "'a nodeDB"
  shows "dbMem (setNode p f ndb) = dbMem ndb"
    "batchOf (setNode p f ndb) = batchOf ndb"
    "memNodes (setNode p f ndb) = memNodes ndb"
    "nodeMaxCacheSize (setNode p f ndb) = nodeMaxCacheSize ndb"
    "nodeCacheOnlyFlushOnSave (setNode p f ndb) = nodeCacheOnlyFlushOnSave ndb"
  by (simp_all add: setNode_def)

lemma nodeAt_setNode:
  "isNode p ndb \<Longrightarrow> nodeAt p (setNode p f ndb) = f (nodeAt p ndb)"
  by (simp add: nodeAt_def setNode_def isNode_def)

lemma SaveNode2_eq:
  "SaveNode2 writeBytes node flushToDisk ndb =
     (if \<not> isNode node ndb then (Panic ''nil pointer dereference'', ndb)
      else if hash (nodeAt node ndb) = None
      then (Panic ''Expected to find node.hash, but none found.'', ndb)
      else if persisted (nodeAt node ndb)
      then (Panic ''Shouldn't be calling save on an already persisted node.'', ndb)
      else case writeBytes (nodeAt node ndb) (getLeafValueCb ndb = None) of
        Inl err \<Rightarrow> (Panic err, ndb)
      | Inr buf \<Rightarrow>
          cacheNode2 node
            (setNode node (\<lambda>n. n\<lparr>persisted := True\<rparr>)
               (ndb\<lparr>batch := batch ndb
                       @ [Set (nodeKey (string_of (hash (nodeAt node ndb)))) buf]\<rparr>)))"
  by (simp add: SaveNode2_def writeNode_def Let_def batch_Set_def split: sum.splits)

lemma SaveNode_eq:
  "SaveNode writeBytes node flushToDisk ndb =
     (if \<not> isNode node ndb then (Panic ''nil pointer dereference'', ndb)
      else if hash (nodeAt node ndb) = None
      then (Panic ''Expected to find node.hash, but none found.'', ndb)
      else if persistedMem (nodeAt node ndb) \<and> \<not> flushToDisk then (Return (), ndb)
      else if persisted (nodeAt node ndb)
      then (Panic ''Shouldn't be calling save on an already persisted node.'', ndb)
      else case writeBytes (nodeAt node ndb) (getLeafValueCb ndb = None) of
        Inl err \<Rightarrow> (Panic err, ndb)
      | Inr buf \<Rightarrow>
          if flushToDisk
          then cacheNode node
                 (setNode node (\<lambda>n. n\<lparr>persisted := True\<rparr>)
                    (ndb\<lparr>batch := batch ndb
                            @ [Set (nodeKey (string_of (hash (nodeAt node ndb)))) buf]\<rparr>))
          else case memNodes ndb of
                 None \<Rightarrow> (Panic ''assignment to entry in nil map'',
                          setNode node (\<lambda>n. n\<lparr>persistedMem := True\<rparr>) ndb)
               | Some m \<Rightarrow>
                   cacheNode node
                     ((setNode node (\<lambda>n. n\<lparr>persistedMem := True\<rparr>) ndb)
                        \<lparr>memNodes := Some (m(string_of (hash (nodeAt node ndb)) \<mapsto> node))\<rparr>))"
  by (simp add: SaveNode_def Let_def batch_Set_def nodeAt_setNode split: sum.splits option.splits)

lemma cacheWithinLimit_nodes [simp]:
  "cacheWithinLimit (ndb\<lparr>nodes := m\<rparr>) = cacheWithinLimit ndb"
  "cacheWithinLimit (setNode p f ndb) = cacheWithinLimit ndb"
  by (simp_all add: cacheWithinLimit_def setNode_def)

lemma cacheWithinLimit_MoveToBack:
  "cacheWithinLimit ndb \<Longrightarrow>
   cacheWithinLimit (ndb\<lparr>nodeCacheQueue := MoveToBack e (nodeCacheQueue ndb)\<rparr>)"
  using Len_MoveToBack [of e "nodeCacheQueue ndb"] by (simp add: cacheWithinLimit_def)

lemma GetNode2_within:
  "cacheWithinLimit ndb \<Longrightarrow> cacheWithinLimit (snd (GetNode2 MakeNode h ndb))"
  by (simp add: GetNode2_eq cacheWithinLimit_MoveToBack cacheNode2_within
      split: option.splits sum.splits)

lemma GetNode_within:
  "cacheWithinLimit ndb \<Longrightarrow> \<not> nodeCacheOnlyFlushOnSave ndb \<Longrightarrow>
   cacheWithinLimit (snd (GetNode MakeNode h ndb))"
  by (simp add: GetNode_eq cacheWithinLimit_MoveToBack cacheNode_within
      split: option.splits sum.splits)

lemma cacheNode2_withinD:
  "cacheNode2 node ndb = (r, s) \<Longrightarrow> cacheWithinLimit ndb \<Longrightarrow> cacheWithinLimit s"
  using cacheNode2_within [of ndb node] by simp

lemma cacheNode_withinD:
  "cacheNode node ndb = (r, s) \<Longrightarrow> cacheWithinLimit ndb \<Longrightarrow>
   \<not> nodeCacheOnlyFlushOnSave ndb \<Longrightarrow> cacheWithinLimit s"
  using cacheNode_within [of ndb node] by simp

lemma SaveNode2_within:
  "cacheWithinLimit ndb \<Longrightarrow> cacheWithinLimit (snd (SaveNode2 writeBytes node flushToDisk ndb))"
  by (auto simp: SaveNode2_def writeNode_def Let_def cacheNode2_within split: sum.splits)

lemma SaveNode_within:
  "cacheWithinLimit ndb \<Longrightarrow> \<not> nodeCacheOnlyFlushOnSave ndb \<Longrightarrow>
   cacheWithinLimit (snd (SaveNode writeBytes node flushToDisk ndb))"
  by (auto simp: SaveNode_def Let_def cacheNode_within setNode_def
      split: sum.splits option.splits)

lemma FlushCache_within: "cacheWithinLimit ndb \<Longrightarrow> FlushCache ndb = (Return (), ndb)"
  by (subst FlushCache.simps) (simp add: cacheWithinLimit_def)

lemma FlushCache_step:
  "\<not> cacheWithinLimit ndb \<Longrightarrow> Front (nodeCacheQueue ndb) = Some oldest \<Longrightarrow>
   FlushCache ndb =
     FlushCache (ndb\<lparr>nodeCacheQueue := Remove oldest (nodeCacheQueue ndb),
                    nodeCache := (nodeCache ndb)
                                   (string_of (hash (nodeAt (snd oldest) ndb)) := None)\<rparr>)"
  by (subst FlushCache.simps) (simp add: cacheWithinLimit_def)

lemma FlushCache_empty:
  "\<not> cacheWithinLimit ndb \<Longrightarrow> Front (nodeCacheQueue ndb) = None \<Longrightarrow>
   FlushCache ndb = (Panic ''nil pointer dereference'', ndb)"
  by (subst FlushCache.simps) (simp add: cacheWithinLimit_def)

lemma FlushCache_shrinks:
  "set (elems (nodeCacheQueue (snd (FlushCache ndb)))) \<subseteq> set (elems (nodeCacheQueue ndb))
   \<and> nodeCache (snd (FlushCache ndb)) \<subseteq>\<^sub>m nodeCache ndb
   \<and> db (snd (FlushCache ndb)) = db ndb
   \<and> batch (snd (FlushCache ndb)) = batch ndb
   \<and> dbMem (snd (FlushCache ndb)) = dbMem ndb
   \<and> nodeCacheSize (snd (FlushCache ndb)) = nodeCacheSize ndb
   \<and> (fst (FlushCache ndb) = Return () \<longrightarrow> cacheWithinLimit (snd (FlushCache ndb)))
   \<and> (0 \<le> nodeCacheSize ndb \<longrightarrow> fst (FlushCache ndb) = Return ())"
proof (induction ndb rule: FlushCache.induct)
  case (1 ndb)
  show ?case
  proof (cases "cacheWithinLimit ndb")
    case True
    then show ?thesis
      by (simp add: FlushCache_within)
  next
    case False
    show ?thesis
    proof (cases "Front (nodeCacheQueue ndb)")
      case None
      then have "elems (nodeCacheQueue ndb) = []"
        by (simp add: Front_def split: list.splits)
      with False have "nodeCacheSize ndb < 0"
        by (simp add: cacheWithinLimit_def Len_def)
      then show ?thesis
        by (simp add: FlushCache_empty [OF False None])
    next
      case (Some oldest)
      let ?n = "ndb\<lparr>nodeCacheQueue := Remove oldest (nodeCacheQueue ndb),
                    nodeCache := (nodeCache ndb)
                                   (string_of (hash (nodeAt (snd oldest) ndb)) := None)\<rparr>"
      have lt: "nodeCacheSize ndb < int (Len (nodeCacheQueue ndb))"
        using False by (simp add: cacheWithinLimit_def)
      let ?r = "FlushCache ?n"
      have ih: "set (elems (nodeCacheQueue (snd ?r))) \<subseteq> set (elems (nodeCacheQueue ?n))"
        "nodeCache (snd ?r) \<subseteq>\<^sub>m nodeCache ?n"
        "db (snd ?r) = db ?n" "batch (snd ?r) = batch ?n" "dbMem (snd ?r) = dbMem ?n"
        "nodeCacheSize (snd ?r) = nodeCacheSize ?n"
        "fst ?r = Return () \<longrightarrow> cacheWithinLimit (snd ?r)"
        "0 \<le> nodeCacheSize ?n \<longrightarrow> fst ?r = Return ()"
        using "1.IH" [OF lt Some] by blast+
      have "set (elems (nodeCacheQueue ?n)) \<subseteq> set (elems (nodeCacheQueue ndb))"
        by (auto simp: Remove_def)
      with ih(1) have sub: "set (elems (nodeCacheQueue (snd ?r))) \<subseteq> set (elems (nodeCacheQueue ndb))"
        by (rule subset_trans)
      have "nodeCache ?n \<subseteq>\<^sub>m nodeCache ndb"
        by (auto simp: map_le_def)
      with ih(2) have le: "nodeCache (snd ?r) \<subseteq>\<^sub>m nodeCache ndb"
        by (rule map_le_trans)
      have "FlushCache ndb = ?r"
        by (rule FlushCache_step [OF False Some])
      then show ?thesis
        using sub le ih(3-8) by simp
    qed
  qed
qed

lemma map_of_apply_op: "map_of (apply_op d x) = applyToMap (map_of d) x"
  by (cases x) (simp_all add: update_conv' delete_conv')

lemma map_of_batch_Write: "map_of (batch_Write b d) = foldl applyToMap (map_of d) b"
  by (induction b arbitrary: d) (simp_all add: batch_Write_def map_of_apply_op)

lemma pushed_fields:
  "nodeCache (pushed n ndb) (string_of (hash (nodeAt n ndb)))
   = Some (allocated (nodeCacheQueue ndb), n)"
  "elems (nodeCacheQueue (pushed n ndb))
   = elems (nodeCacheQueue ndb) @ [(allocated (nodeCacheQueue ndb), n)]"
  "Len (nodeCacheQueue (pushed n ndb)) = Suc (Len (nodeCacheQueue ndb))"
  by (simp_all add: pushed_def PushBack_def Let_def Len_def)

lemmas cache_eval = SaveNode_def cacheNode_def PushBack_def evictOldest_def Front_def Remove_def
  Len_def list_New_def string_of_def Let_def exampleWriteBytes_def node7_def node8_def
  NewNodeDB3_def NewNodeDB_def batch_Set_def newNode_def isNode_def nodeAt_def setNode_def

lemma flushOnSaveStore_eq:
  "flushOnSaveStore =
     (NewNodeDB3 [] 1 0 True None)
       \<lparr>batch := [Set (nodeKey [7]) [1], Set (nodeKey [8]) [1]],
        nodeCache := [[7] \<mapsto> (0, 0), [8] \<mapsto> (1, 1)],
        nodeCacheQueue := \<lparr>elems = [(0, 0), (1, 1)], allocated = 2\<rparr>,
        nodes := [node7\<lparr>persisted := True\<rparr>, node8\<lparr>persisted := True\<rparr>]\<rparr>"
  by (simp add: flushOnSaveStore_def cache_eval)

lemma memTierStore_eq:
  "memTierStore =
     (NewNodeDB [] 1 None)
       \<lparr>memNodes := Some [[7] \<mapsto> 0, [8] \<mapsto> 1],
        nodeCache := [[8] \<mapsto> (1, 1)],
        nodeCacheQueue := \<lparr>elems = [(1, 1)], allocated = 2\<rparr>,
        nodes := [node7\<lparr>persistedMem := True\<rparr>, node8\<lparr>persistedMem := True\<rparr>]\<rparr>"
  by (simp add: memTierStore_def cache_eval fun_upd_twist)

text \<open>The node that \<open>memNodes\<close> and the queue share is one object: saved to disk after it
  was saved to memory, it is marked as persisted wherever it is read.\<close>

lemma SaveNode_shares_node:
  "memNode [7] savedTwiceStore = Some 0
   \<and> elems (nodeCacheQueue savedTwiceStore) = [(0, 0), (1, 0)]
   \<and> nodeCache savedTwiceStore [7] = Some (1, 0)
   \<and> nodeAt 0 savedTwiceStore
       = \<lparr>hash = Some [7], persisted = True, persistedMem = True, content = ()\<rparr>
   \<and> batch savedTwiceStore = [Set (nodeKey [7]) [1]]"
  by (simp add: savedTwiceStore_def memNode_def cache_eval)

lemma evictOldest_front:
  assumes "Front (nodeCacheQueue ndb) = Some oldest"
  shows "oldest \<notin> set (elems (nodeCacheQueue (snd (evictOldest ndb))))
         \<and> nodeCache (snd (evictOldest ndb)) (string_of (hash (nodeAt (snd oldest) ndb))) = None"
  using assms by (simp add: evictOldest_def Remove_def)

lemma NewNodeDB_caches:
  "0 \<le> cacheSize \<Longrightarrow> cacheWithinLimit (NewNodeDB2 d cacheSize cb)"
  "0 \<le> cacheSize \<Longrightarrow> cacheWithinLimit (NewNodeDB d cacheSize cb)"
  "cacheConsistent (NewNodeDB2 d cacheSize cb)"
  "cacheConsistent (NewNodeDB d cacheSize cb)"
  by (simp_all add: cacheWithinLimit_def cacheConsistent_def NewNodeDB2_def NewNodeDB_def
      list_New_def Len_def)

lemma Commit_eq:
  "Commit ndb =
     FlushCache
       ((case batchOf ndb of
           Disk \<Rightarrow> ndb\<lparr>db := batch_Write (batch ndb) (db ndb)\<rparr>
         | Mem \<Rightarrow> ndb\<lparr>dbMem := map_option (batch_Write (batch ndb)) (dbMem ndb)\<rparr>
         | Dropped \<Rightarrow> ndb)\<lparr>batch := [], batchOf := Disk\<rparr>)"
  by (simp add: Commit_def Let_def)

lemma written_cache [simp]:
  "nodeCache (written ndb) = nodeCache ndb"
  "nodeCacheQueue (written ndb) = nodeCacheQueue ndb"
  "nodeCacheSize (written ndb) = nodeCacheSize ndb"
  "cacheWithinLimit (written ndb) = cacheWithinLimit ndb"
  "batch (written ndb) = []"
  by (simp_all add: written_def cacheWithinLimit_def split: store.splits)

lemma written_store:
  "batchOf ndb = Disk \<Longrightarrow> db (written ndb) = batch_Write (batch ndb) (db ndb)"
  "batchOf ndb = Disk \<Longrightarrow> dbMem (written ndb) = dbMem ndb"
  "batchOf ndb = Mem \<Longrightarrow> db (written ndb) = db ndb"
  "batchOf ndb = Mem \<Longrightarrow> dbMem (written ndb) = map_option (batch_Write (batch ndb)) (dbMem ndb)"
  by (simp_all add: written_def)

lemma Commit_written: "Commit ndb = FlushCache (written ndb)"
  by (simp add: Commit_eq written_def)

lemma map_le_None:
  assumes "m \<subseteq>\<^sub>m m'" and "m' k = None"
  shows "m k = None"
proof (cases "m k")
  case None
  then show ?thesis .
next
  case (Some v)
  then have "k \<in> dom m"
    by auto
  with assms(1) have "m k = m' k"
    by (simp add: map_le_def)
  with assms(2) show ?thesis
    by simp
qed

lemma FlushCache_nodes: "nodes (snd (FlushCache ndb)) = nodes ndb"
proof (induction ndb rule: FlushCache.induct)
  case (1 ndb)
  show ?case
  proof (cases "nodeCacheSize ndb < int (Len (nodeCacheQueue ndb))")
    case False
    then show ?thesis
      by (subst FlushCache.simps) simp
  next
    case True
    show ?thesis
    proof (cases "Front (nodeCacheQueue ndb)")
      case None
      with True show ?thesis
        by (subst FlushCache.simps) simp
    next
      case (Some oldest)
      have "FlushCache ndb =
              FlushCache (ndb\<lparr>nodeCacheQueue := Remove oldest (nodeCacheQueue ndb),
                              nodeCache := (nodeCache ndb)
                                (string_of (hash (nodeAt (snd oldest) ndb)) := None)\<rparr>)"
        using True Some by (subst FlushCache.simps) simp
      then show ?thesis
        using "1.IH" [OF True Some] by simp
    qed
  qed
qed

lemma FlushCache_front:
  assumes "\<not> cacheWithinLimit ndb" and "Front (nodeCacheQueue ndb) = Some oldest"
  shows "oldest \<notin> set (elems (nodeCacheQueue (snd (FlushCache ndb))))
         \<and> nodeCache (snd (FlushCache ndb)) (string_of (hash (nodeAt (snd oldest) ndb))) = None"
proof -
  let ?n = "ndb\<lparr>nodeCacheQueue := Remove oldest (nodeCacheQueue ndb),
                nodeCache := (nodeCache ndb)(string_of (hash (nodeAt (snd oldest) ndb)) := None)\<rparr>"
  have step: "FlushCache ndb = FlushCache ?n"
    using assms by (rule FlushCache_step)
  have "set (elems (nodeCacheQueue (snd (FlushCache ?n)))) \<subseteq> set (elems (nodeCacheQueue ?n))"
    and le: "nodeCache (snd (FlushCache ?n)) \<subseteq>\<^sub>m nodeCache ?n"
    using FlushCache_shrinks [of ?n] by blast+
  moreover have "oldest \<notin> set (elems (nodeCacheQueue ?n))"
    by (simp add: Remove_def)
  moreover have "nodeCache ?n (string_of (hash (nodeAt (snd oldest) ndb))) = None"
    by simp
  with le have "nodeCache (snd (FlushCache ?n)) (string_of (hash (nodeAt (snd oldest) ndb))) = None"
    by (rule map_le_None)
  ultimately show ?thesis
    unfolding step by blast
qed

text \<open>The queue with distinct identities, and the closed forms of eviction.\<close>

lemma queueOK_distinct: "queueOK q \<Longrightarrow> distinct (elems q)"
  by (simp add: queueOK_def distinct_map)

lemma queueOK_list_New: "queueOK list_New"
  by (simp add: queueOK_def list_New_def)

lemma queueOK_PushBack: "queueOK q \<Longrightarrow> queueOK (snd (PushBack v q))"
  by (auto simp: queueOK_def PushBack_def Let_def list_all_iff)

lemma queueOK_Remove: "queueOK q \<Longrightarrow> queueOK (Remove e q)"
  by (auto simp: queueOK_def Remove_def list_all_iff distinct_map_filter)

lemma queueOK_MoveToBack: "queueOK q \<Longrightarrow> queueOK (MoveToBack e q)"
  by (cases e)
    (auto simp: queueOK_def MoveToBack_def list_all_iff distinct_map_filter
      dest: eq_key_imp_eq_value)

lemma Remove_front:
  assumes "queueOK q" and "elems q = e # rest"
  shows "Remove e q = q\<lparr>elems := rest\<rparr>"
proof -
  have "distinct (e # rest)"
    using queueOK_distinct [OF assms(1)] assms(2) by simp
  then have "filter (\<lambda>x. x \<noteq> e) rest = rest"
    by (auto simp: filter_id_conv)
  then show ?thesis
    by (simp add: Remove_def assms(2))
qed

lemma trimmed_0 [simp]: "trimmed 0 ndb = ndb"
  by (simp add: trimmed_def evictedHashes_def)

lemma evictOldest_trimmed:
  assumes "queueOK (nodeCacheQueue ndb)" and "elems (nodeCacheQueue ndb) \<noteq> []"
  shows "evictOldest ndb = (Return (), trimmed 1 ndb)"
proof -
  obtain e rest where er: "elems (nodeCacheQueue ndb) = e # rest"
    using assms(2) by (cases "elems (nodeCacheQueue ndb)") auto
  have "Remove e (nodeCacheQueue ndb) = (nodeCacheQueue ndb)\<lparr>elems := rest\<rparr>"
    using assms(1) er by (rule Remove_front)
  moreover have "(nodeCache ndb)(k := None) = nodeCache ndb |` (- {k})" for k
    by (rule ext) (simp add: restrict_map_def)
  ultimately show ?thesis
    by (simp add: evictOldest_Cons [OF er] trimmed_def evictedHashes_def er)
qed

lemma trimmed_trimmed:
  "trimmed j (trimmed k ndb) = trimmed (k + j) ndb"
proof -
  have "set (map (\<lambda>e. string_of (hash (nodeAt (snd e) ndb))) (take (k + j) (elems (nodeCacheQueue ndb))))
        = set (evictedHashes k ndb) \<union> set (evictedHashes j (trimmed k ndb))"
    by (simp add: evictedHashes_def trimmed_def nodeAt_def take_add)
  then have "nodeCache ndb |` (- set (evictedHashes (k + j) ndb))
        = (nodeCache ndb |` (- set (evictedHashes k ndb))) |` (- set (evictedHashes j (trimmed k ndb)))"
    by (simp add: evictedHashes_def Int_commute Un_commute)
  then show ?thesis
    by (simp add: trimmed_def add.commute)
qed


lemma queueOK_trimmed:
  "queueOK (nodeCacheQueue ndb) \<Longrightarrow> queueOK (nodeCacheQueue (trimmed k ndb))"
  by (auto simp: queueOK_def trimmed_def list_all_iff distinct_drop drop_map [symmetric]
      dest: in_set_dropD)

lemma trimmed_keeps [simp]:
  "nodeCacheSize (trimmed k ndb) = nodeCacheSize ndb"
  "nodes (trimmed k ndb) = nodes ndb"
  "Len (nodeCacheQueue (trimmed k ndb)) = Len (nodeCacheQueue ndb) - k"
  by (simp_all add: trimmed_def Len_def)

lemma FlushCache_trimmed:
  "queueOK (nodeCacheQueue ndb) \<longrightarrow>
   FlushCache ndb =
     (if 0 \<le> nodeCacheSize ndb then Return () else Panic ''nil pointer dereference'',
      trimmed (Len (nodeCacheQueue ndb) - nat (nodeCacheSize ndb)) ndb)"
proof (induction ndb rule: FlushCache.induct)
  case (1 ndb)
  show ?case
  proof
    assume ok: "queueOK (nodeCacheQueue ndb)"
    show "FlushCache ndb =
     (if 0 \<le> nodeCacheSize ndb then Return () else Panic ''nil pointer dereference'',
      trimmed (Len (nodeCacheQueue ndb) - nat (nodeCacheSize ndb)) ndb)"
    proof (cases "cacheWithinLimit ndb")
      case True
      then have "0 \<le> nodeCacheSize ndb"
        and "Len (nodeCacheQueue ndb) - nat (nodeCacheSize ndb) = 0"
        by (simp_all add: cacheWithinLimit_def)
      then show ?thesis
        by (simp add: FlushCache_within [OF True])
    next
      case False
      then have lt: "nodeCacheSize ndb < int (Len (nodeCacheQueue ndb))"
        by (simp add: cacheWithinLimit_def)
      show ?thesis
      proof (cases "Front (nodeCacheQueue ndb)")
        case None
        then have "elems (nodeCacheQueue ndb) = []"
          by (simp add: Front_def split: list.splits)
        then have "Len (nodeCacheQueue ndb) = 0"
          by (simp add: Len_def)
        with lt show ?thesis
          by (simp add: FlushCache_empty [OF False None])
      next
        case (Some oldest)
        then obtain rest where er: "elems (nodeCacheQueue ndb) = oldest # rest"
          by (auto simp: Front_def split: list.splits)
        let ?n = "ndb\<lparr>nodeCacheQueue := Remove oldest (nodeCacheQueue ndb),
                      nodeCache := (nodeCache ndb)
                                     (string_of (hash (nodeAt (snd oldest) ndb)) := None)\<rparr>"
        have "evictOldest ndb = (Return (), ?n)"
          by (rule evictOldest_Cons [OF er])
        moreover have "evictOldest ndb = (Return (), trimmed 1 ndb)"
          using ok er by (intro evictOldest_trimmed) simp_all
        ultimately have n: "?n = trimmed 1 ndb"
          by simp
        have step: "FlushCache ndb = FlushCache (trimmed 1 ndb)"
          using FlushCache_step [OF False Some] n by simp
        have "queueOK (nodeCacheQueue (trimmed 1 ndb))"
          using ok by (rule queueOK_trimmed)
        with "1.IH" [OF lt Some] n
        have ih: "FlushCache (trimmed 1 ndb) =
           (if 0 \<le> nodeCacheSize ndb then Return () else Panic ''nil pointer dereference'',
            trimmed (Len (nodeCacheQueue ndb) - 1 - nat (nodeCacheSize ndb)) (trimmed 1 ndb))"
          by simp
        have "nat (nodeCacheSize ndb) < Len (nodeCacheQueue ndb)"
          using lt er by (cases "0 \<le> nodeCacheSize ndb") (simp_all add: Len_def nat_less_iff)
        then have "1 + (Len (nodeCacheQueue ndb) - 1 - nat (nodeCacheSize ndb))
              = Len (nodeCacheQueue ndb) - nat (nodeCacheSize ndb)"
          by arith
        then show ?thesis
          unfolding step ih trimmed_trimmed by simp
      qed
    qed
  qed
qed

lemma queueOK_pushed:
  "queueOK (nodeCacheQueue ndb) \<Longrightarrow> queueOK (nodeCacheQueue (pushed node ndb))"
  by (simp add: pushed_def queueOK_PushBack)

lemma cacheNode2_trimmed:
  assumes "queueOK (nodeCacheQueue ndb)"
  shows "cacheNode2 node ndb =
     (Return (),
      if nodeCacheSize ndb < int (Suc (Len (nodeCacheQueue ndb)))
      then trimmed 1 (pushed node ndb) else pushed node ndb)"
proof -
  have "elems (nodeCacheQueue (pushed node ndb)) \<noteq> []"
    by (simp add: pushed_fields)
  with queueOK_pushed [OF assms, of node]
  have "evictOldest (pushed node ndb) = (Return (), trimmed 1 (pushed node ndb))"
    by (rule evictOldest_trimmed)
  then show ?thesis
    by (simp add: cacheNode2_eq del: of_nat_Suc)
qed

lemma cacheNode_trimmed:
  assumes "queueOK (nodeCacheQueue ndb)"
  shows "cacheNode node ndb =
     (Return (),
      if \<not> nodeCacheOnlyFlushOnSave ndb \<and> nodeCacheSize ndb < int (Suc (Len (nodeCacheQueue ndb)))
      then trimmed 1 (pushed node ndb) else pushed node ndb)"
proof -
  have "elems (nodeCacheQueue (pushed node ndb)) \<noteq> []"
    by (simp add: pushed_fields)
  with queueOK_pushed [OF assms, of node]
  have "evictOldest (pushed node ndb) = (Return (), trimmed 1 (pushed node ndb))"
    by (rule evictOldest_trimmed)
  then show ?thesis
    by (simp add: cacheNode_eq del: of_nat_Suc)
qed

lemma fullStore_eq:
  "fullStore =
     (NewNodeDB [] 1 None)
       \<lparr>batch := [Set (nodeKey [7]) [1]],
        nodeCache := [[7] \<mapsto> (0, 0)],
        nodeCacheQueue := \<lparr>elems = [(0, 0)], allocated = 1\<rparr>,
        nodes := [node7\<lparr>persisted := True\<rparr>, node8]\<rparr>"
  by (simp add: fullStore_def cache_eval)

lemma fourCachedStore_eq:
  "fourCachedStore =
     (NewNodeDB3 [] 2 0 True None)
       \<lparr>batch := [Set (nodeKey [5]) [1], Set (nodeKey [6]) [1], Set (nodeKey [7]) [1],
                  Set (nodeKey [8]) [1]],
        nodeCache := [[5] \<mapsto> (0, 0), [6] \<mapsto> (1, 1), [7] \<mapsto> (2, 2), [8] \<mapsto> (3, 3)],
        nodeCacheQueue := \<lparr>elems = [(0, 0), (1, 1), (2, 2), (3, 3)], allocated = 4\<rparr>,
        nodes := [node5\<lparr>persisted := True\<rparr>, node6\<lparr>persisted := True\<rparr>,
                  node7\<lparr>persisted := True\<rparr>, node8\<lparr>persisted := True\<rparr>]\<rparr>"
  by (simp add: fourCachedStore_def fourNodes_def cache_eval node5_def node6_def
      numeral_2_eq_2 numeral_3_eq_3)

lemma queueOK_cacheNode2:
  "queueOK (nodeCacheQueue ndb) \<Longrightarrow> queueOK (nodeCacheQueue (snd (cacheNode2 node ndb)))"
  by (simp add: cacheNode2_trimmed queueOK_trimmed queueOK_pushed del: of_nat_Suc)

lemma queueOK_cacheNode:
  "queueOK (nodeCacheQueue ndb) \<Longrightarrow> queueOK (nodeCacheQueue (snd (cacheNode node ndb)))"
  by (simp add: cacheNode_trimmed queueOK_trimmed queueOK_pushed del: of_nat_Suc)

lemma queueOK_GetNode2:
  "queueOK (nodeCacheQueue ndb) \<Longrightarrow> queueOK (nodeCacheQueue (snd (GetNode2 MakeNode h ndb)))"
  by (simp add: GetNode2_eq queueOK_MoveToBack queueOK_cacheNode2 split: option.splits sum.splits)

lemma queueOK_GetNode:
  "queueOK (nodeCacheQueue ndb) \<Longrightarrow> queueOK (nodeCacheQueue (snd (GetNode MakeNode h ndb)))"
  by (simp add: GetNode_eq queueOK_MoveToBack queueOK_cacheNode split: option.splits sum.splits)

lemma queueOK_SaveNode2:
  "queueOK (nodeCacheQueue ndb) \<Longrightarrow>
   queueOK (nodeCacheQueue (snd (SaveNode2 writeBytes node flushToDisk ndb)))"
  by (auto simp: SaveNode2_def writeNode_def Let_def queueOK_cacheNode2 split: sum.splits)

lemma queueOK_SaveNode:
  "queueOK (nodeCacheQueue ndb) \<Longrightarrow>
   queueOK (nodeCacheQueue (snd (SaveNode writeBytes node flushToDisk ndb)))"
  by (auto simp: SaveNode_def Let_def queueOK_cacheNode setNode_def split: sum.splits option.splits)

lemma queueOK_New:
  "queueOK (nodeCacheQueue (NewNodeDB2 d cacheSize cb))"
  "queueOK (nodeCacheQueue (NewNodeDB d cacheSize cb))"
  "queueOK (nodeCacheQueue (NewNodeDB3 d minCacheSize maxCacheSize onlyFlushOnSave cb))"
  by (simp_all add: NewNodeDB2_def NewNodeDB_def NewNodeDB3_def queueOK_def list_New_def)

lemma written_nodes [simp]: "nodes (written ndb) = nodes ndb"
  by (simp add: written_def split: store.splits)

lemma Commit_trimmed:
  assumes "queueOK (nodeCacheQueue ndb)"
  shows "Commit ndb =
     (if 0 \<le> nodeCacheSize ndb then Return () else Panic ''nil pointer dereference'',
      trimmed (Len (nodeCacheQueue ndb) - nat (nodeCacheSize ndb)) (written ndb))"
  using assms FlushCache_trimmed [of "written ndb"] by (simp add: Commit_written)

lemma trimmed_fields:
  "elems (nodeCacheQueue (trimmed k ndb)) = drop k (elems (nodeCacheQueue ndb))"
  "allocated (nodeCacheQueue (trimmed k ndb)) = allocated (nodeCacheQueue ndb)"
  "nodeCache (trimmed k ndb)
   = nodeCache ndb |` (- set (map (\<lambda>e. string_of (hash (nodeAt (snd e) ndb)))
                                (take k (elems (nodeCacheQueue ndb)))))"
  by (simp_all add: trimmed_def evictedHashes_def)

lemma pushed_cache:
  "nodeCache (pushed n ndb)
   = (nodeCache ndb)(string_of (hash (nodeAt n ndb)) \<mapsto> (allocated (nodeCacheQueue ndb), n))"
  "allocated (nodeCacheQueue (pushed n ndb)) = Suc (allocated (nodeCacheQueue ndb))"
  by (simp_all add: pushed_def PushBack_def Let_def)

lemma cachedPrunable2_eq:
  "cachedPrunable2 =
     prunableStore2
       \<lparr>nodeCache := [[5] \<mapsto> (0, 0), [7] \<mapsto> (1, 1)],
        nodeCacheQueue := \<lparr>elems = [(0, 0), (1, 1)], allocated = 2\<rparr>,
        nodes := [\<lparr>hash = Some [5], persisted = True, persistedMem = False, content = ()\<rparr>,
                  \<lparr>hash = Some [7], persisted = True, persistedMem = False, content = ()\<rparr>]\<rparr>"
  by (simp add: cachedPrunable2_def GetNode2_def getCachedNode_def cacheNode2_def prunableStore2_def
      threeVersions_def NewNodeDB2_def exampleMakeNode_def db_Get_def key_eval nodeKey_def
      KeyBytes_def newNode_def setNode_def nodeAt_def PushBack_def list_New_def Len_def
      string_of_def Let_def)

lemma cachedPrunable2_scan:
  "getPreviousVersion 2 cachedPrunable2 = 1"
  "expiringAt 2 (db cachedPrunable2) = [(orphanKey 1 2 [7], [7]), (orphanKey 2 2 [5], [5])]"
  "prunedHashes 1 [(orphanKey 1 2 [7], [7]), (orphanKey 2 2 [5], [5])] = [[5]]"
  by (simp_all add: cachedPrunable2_eq)
    (simp_all add: prunableStore2_def threeVersions_def NewNodeDB2_def expiringAt_def
      prunedHashes_def orphanPruned_def db_eval key_eval word_sless_alt)

section \<open>Facts about the latest-version counter\<close>

lemma be_value_top:
  assumes "unat a < 128" and "length r \<le> 7"
  shows "be_value (a # r) < 2 ^ 63"
proof -
  have "be_value r < 256 ^ length r"
    by (rule be_value_less)
  then have "be_value (a # r) < (unat a + 1) * 256 ^ length r"
    by (simp add: be_value_Cons)
  also have "\<dots> \<le> 128 * 256 ^ length r"
    using assms(1) by (intro mult_le_mono1) simp
  also have "\<dots> \<le> 128 * 256 ^ 7"
    using assms(2) by (intro mult_le_mono2 power_increasing) simp_all
  also have "\<dots> = 2 ^ 63"
    by simp
  finally show ?thesis .
qed

lemma sle_of_nat:
  assumes "n < 2 ^ 63"
  shows "0 \<le>s (of_nat n :: int64)"
proof -
  have "unat (of_nat n :: int64) = n"
    using assms by (simp add: unat_of_nat)
  then have "uint (of_nat n :: int64) = int n"
    by (metis uint_nat)
  moreover have "int n < 2 ^ 63"
    using assms by (metis of_nat_less_iff of_nat_numeral of_nat_power)
  ultimately have "sint (of_nat n :: int64) = int n"
    using sint_eq_uint [of "of_nat n"] by simp
  then show ?thesis
    by (simp add: word_sle_eq)
qed

lemma getPreviousVersioni_MaxInt64: "0 \<le>s getPreviousVersioni MaxInt64 d"
proof (cases "ReverseIterator d (rootKey 1) (rootKey MaxInt64)")
  case Nil
  then show ?thesis
    by (simp add: getPreviousVersioni_def rootKey_def)
next
  case (Cons kv rest)
  obtain k v where kv: "kv = (k, v)"
    by (cases kv)
  from Cons kv have lo: "rootKey 1 \<le> k" and hi: "k < rootKey MaxInt64"
    using ReverseIterator_head [of d "rootKey 1" "rootKey MaxInt64" k v rest] by simp_all
  have "0x72 # be64 1 \<le> k" and "k < 0x72 # be64 MaxInt64"
    using lo hi by (simp_all only: rootKey_bytes)
  then obtain t where t: "k = 0x72 # t" "t < be64 MaxInt64"
    by (rule between_root_keys)
  have m: "be64 MaxInt64 = [0x7F, 0xFF, 0xFF, 0xFF, 0xFF, 0xFF, 0xFF, 0xFF]"
    by (simp add: be64_eval MaxInt64_def)
  have "be_value (take 8 t) < 2 ^ 63"
  proof (cases t)
    case Nil
    then show ?thesis by simp
  next
    case (Cons a r)
    with t(2) m have "a \<le> 0x7F"
      by (auto simp: Cons_less_Cons)
    then have "unat a < 128"
      by (simp add: word_le_nat_alt)
    moreover have "length (take 7 r) \<le> 7"
      by simp
    ultimately have "be_value (a # take 7 r) < 2 ^ 63"
      by (rule be_value_top)
    with Cons show ?thesis
      by simp
  qed
  then have "0 \<le>s (of_nat (be_value (take 8 t)) :: int64)"
    by (rule sle_of_nat)
  moreover have "getPreviousVersioni MaxInt64 d = of_nat (be_value (take 8 t))"
    using Cons kv t(1)
    by (simp add: getPreviousVersioni_def rootKey_def Scan_int64_def int64Size_def int64_of_be_def)
  ultimately show ?thesis
    by simp
qed

lemma getLatestVersion_grows: "latestVersion ndb \<le>s latestVersion (snd (getLatestVersion ndb))"
  using getPreviousVersioni_MaxInt64 [of "db ndb"]
  by (simp add: getLatestVersion_def getPreviousVersion_def Let_def)

lemma sle_refl [simp]: "(v :: int64) \<le>s v"
  by (simp add: word_sle_eq)

lemma evictOldest_latest [simp]: "latestVersion (snd (evictOldest ndb)) = latestVersion ndb"
  by (simp add: evictOldest_def split: option.splits)

lemma pushed_latest [simp]: "latestVersion (pushed node ndb) = latestVersion ndb"
  by (simp add: pushed_def)

lemma cacheNode2_latest [simp]: "latestVersion (snd (cacheNode2 node ndb)) = latestVersion ndb"
  by (simp add: cacheNode2_eq)

lemma cacheNode_latest [simp]: "latestVersion (snd (cacheNode node ndb)) = latestVersion ndb"
  by (simp add: cacheNode_eq)

lemma GetNode2_latest [simp]: "latestVersion (snd (GetNode2 MakeNode h ndb)) = latestVersion ndb"
  by (simp add: GetNode2_eq split: option.splits sum.splits)

lemma GetNode_latest [simp]: "latestVersion (snd (GetNode MakeNode h ndb)) = latestVersion ndb"
  by (simp add: GetNode_eq split: option.splits sum.splits)

lemma writeNode_latest [simp]:
  "latestVersion (snd (writeNode writeBytes node ndb)) = latestVersion ndb"
  by (simp add: writeNode_def Let_def split: sum.splits)

lemma SaveNode2_latest [simp]:
  "latestVersion (snd (SaveNode2 writeBytes node flushToDisk ndb)) = latestVersion ndb"
  by (simp add: SaveNode2_def writeNode_def Let_def split: sum.splits)

lemma SaveNode_latest [simp]:
  "latestVersion (snd (SaveNode writeBytes node flushToDisk ndb)) = latestVersion ndb"
  by (simp add: SaveNode_def Let_def split: sum.splits option.splits)

lemma SaveOrphans_latest [simp]:
  "latestVersion (snd (SaveOrphans2 version orphans ndb2)) = latestVersion ndb2"
  "latestVersion (snd (SaveOrphans version orphans ndb)) = latestVersion ndb"
  by (simp_all add: SaveOrphans2_def SaveOrphans_def forEach_saveOrphan Let_def)

lemma saveOrphan_latest [simp]:
  "latestVersion (snd (saveOrphan h fromVersion toVersion ndb)) = latestVersion ndb"
  by (simp add: saveOrphan_def Let_def)

lemma deleteRoot_grows:
  "latestVersion ndb \<le>s latestVersion (snd (deleteRoot version checkLatestVersion ndb))"
  using getLatestVersion_grows [of ndb]
  by (cases "getLatestVersion ndb") (simp add: deleteRoot_def)

lemma DeleteVersion2_grows:
  "latestVersion ndb \<le>s latestVersion (snd (DeleteVersion2 version checkLatestVersion ndb))"
proof -
  have "DeleteVersion2 version checkLatestVersion ndb
        = deleteRoot version checkLatestVersion (snd (deleteOrphans2 version ndb))"
    using deleteOrphans2_Return [of version ndb]
    by (cases "deleteOrphans2 version ndb") (simp add: DeleteVersion2_def)
  then show ?thesis
    using deleteRoot_grows [of "snd (deleteOrphans2 version ndb)" version checkLatestVersion]
    by (simp add: deleteOrphans2_keeps)
qed

lemma DeleteVersion_grows:
  "latestVersion ndb \<le>s latestVersion (snd (DeleteVersion version checkLatestVersion ndb))"
proof -
  have "DeleteVersion version checkLatestVersion ndb
        = deleteRoot version checkLatestVersion (snd (deleteOrphans version ndb))"
    using deleteOrphans_Return [of version ndb]
    by (cases "deleteOrphans version ndb") (simp add: DeleteVersion_def)
  then show ?thesis
    using deleteRoot_grows [of "snd (deleteOrphans version ndb)" version checkLatestVersion]
    by (simp add: deleteOrphans_keeps)
qed

lemma saveRoot_grows: "latestVersion ndb \<le>s latestVersion (snd (saveRoot h version ndb))"
proof -
  let ?s = "(snd (getLatestVersion ndb))\<lparr>batch := batch ndb @ [Set (rootKey version) h]\<rparr>"
  have "latestVersion ndb \<le>s latestVersion ?s"
    using getLatestVersion_grows [of ndb] by simp
  moreover have "latestVersion ?s \<le>s latestVersion (updateLatestVersion version ?s)"
    by (rule updateLatestVersion_grows)
  ultimately have up: "latestVersion ndb \<le>s latestVersion (updateLatestVersion version ?s)"
    by (rule signed.order_trans)
  show ?thesis
  proof (cases "version = fst (getLatestVersion ndb) + 1")
    case True
    have "snd (saveRoot h version ndb) = updateLatestVersion version ?s"
      by (simp only: saveRoot_eq [of h version ndb] True [symmetric] snd_conv) simp
    with up show ?thesis
      by (simp only:)
  next
    case False
    then have "snd (saveRoot h version ndb) = snd (getLatestVersion ndb)"
      by (simp add: saveRoot_eq)
    with getLatestVersion_grows [of ndb] show ?thesis
      by (simp only:)
  qed
qed

lemma SaveRoot_grows: "latestVersion ndb \<le>s latestVersion (snd (SaveRoot root version ndb))"
  using saveRoot_grows [of ndb "string_of (hash (nodeAt root ndb))" version]
  by (cases "saveRoot (string_of (hash (nodeAt root ndb))) version ndb") (simp add: SaveRoot_def)

lemma FlushCache_latest [simp]: "latestVersion (snd (FlushCache ndb)) = latestVersion ndb"
proof (induction ndb rule: FlushCache.induct)
  case (1 ndb)
  show ?case
  proof (cases "nodeCacheSize ndb < int (Len (nodeCacheQueue ndb))")
    case False
    then show ?thesis
      by (subst FlushCache.simps) simp
  next
    case True
    show ?thesis
    proof (cases "Front (nodeCacheQueue ndb)")
      case None
      with True show ?thesis
        by (subst FlushCache.simps) simp
    next
      case (Some oldest)
      have "FlushCache ndb =
              FlushCache (ndb\<lparr>nodeCacheQueue := Remove oldest (nodeCacheQueue ndb),
                              nodeCache := (nodeCache ndb)
                                (string_of (hash (nodeAt (snd oldest) ndb)) := None)\<rparr>)"
        using True Some by (subst FlushCache.simps) simp
      then show ?thesis
        using "1.IH" [OF True Some] by simp
    qed
  qed
qed

lemma Commit_latest [simp]: "latestVersion (snd (Commit ndb)) = latestVersion ndb"
  by (simp add: Commit_written) (simp add: written_def split: store.splits)

lemma deleteOrphansWithPredecessor_latest:
  "latestVersion (fst (snd (deleteOrphansWithPredecessor version p unsaved ndb)))
   = latestVersion ndb"
  using deleteOrphansWithPredecessor_keeps [of version p unsaved ndb] by simp

lemma exec2_grows: "latestVersion ndb \<le>s latestVersion (exec2 c ndb)"
  by (cases c)
    (simp_all add: DeleteVersion2_grows DeleteMemoryVersion2_def SaveRoot_grows saveRoot_grows
      SaveEmptyRoot_def Commit2_def ResetBatch2_def RestMemBatch2_def ResetMemNodes2_def
      getLatestVersion_grows updateLatestVersion_grows deleteOrphans2_keeps deleteRoot_grows
      newNode_def getCachedNode_def split: option.splits)

lemma exec_grows: "latestVersion ndb \<le>s latestVersion (exec c ndb)"
  by (cases c)
    (simp_all add: DeleteVersion_grows DeleteMemoryVersion_keeps SaveRoot_grows saveRoot_grows
      SaveEmptyRoot_def ResetBatch_def RestMemBatch_def ResetMemNodes_def
      getLatestVersion_grows updateLatestVersion_grows deleteOrphans_keeps deleteRoot_grows
      deleteOrphansWithPredecessor_latest newNode_def split: option.splits)

lemma run2_grows: "latestVersion ndb \<le>s latestVersion (foldl (\<lambda>s c. exec2 c s) ndb cs)"
proof (induction cs arbitrary: ndb)
  case Nil
  show ?case by simp
next
  case (Cons c cs)
  have "latestVersion ndb \<le>s latestVersion (exec2 c ndb)"
    by (rule exec2_grows)
  also have "latestVersion (exec2 c ndb) \<le>s latestVersion (foldl (\<lambda>s c. exec2 c s) (exec2 c ndb) cs)"
    by (rule Cons.IH)
  finally show ?case
    by simp
qed

lemma run_grows: "latestVersion ndb \<le>s latestVersion (foldl (\<lambda>s c. exec c s) ndb cs)"
proof (induction cs arbitrary: ndb)
  case Nil
  show ?case by simp
next
  case (Cons c cs)
  have "latestVersion ndb \<le>s latestVersion (exec c ndb)"
    by (rule exec_grows)
  also have "latestVersion (exec c ndb) \<le>s latestVersion (foldl (\<lambda>s c. exec c s) (exec c ndb) cs)"
    by (rule Cons.IH)
  finally show ?case
    by simp
qed

section \<open>Facts about the identities of the queue\<close>

lemma forEach_invariant:
  assumes "P s" and "\<And>x s. P s \<Longrightarrow> P (snd (f x s))"
  shows "P (snd (forEach f xs s))"
  using assms(1)
proof (induction xs arbitrary: s)
  case Nil
  then show ?case by simp
next
  case (Cons x xs)
  obtain r s' where fx: "f x s = (r, s')"
    by (cases "f x s")
  have "P s'"
    using assms(2) [OF Cons.prems, of x] fx by simp
  then show ?case
    using Cons.IH [of s'] fx by (cases r) simp_all
qed

lemma queueOK_uncacheNode:
  "queueOK (nodeCacheQueue ndb) \<Longrightarrow> queueOK (nodeCacheQueue (uncacheNode h ndb))"
  by (simp add: uncacheNode_def queueOK_Remove split: option.splits)

lemma queueOK_saveOrphan:
  "queueOK (nodeCacheQueue ndb) \<Longrightarrow>
   queueOK (nodeCacheQueue (snd (saveOrphan h fromVersion toVersion ndb)))"
  by (simp add: saveOrphan_def Let_def)

lemma queueOK_deleteOrphanEntry:
  "queueOK (nodeCacheQueue ndb) \<Longrightarrow> queueOK (nodeCacheQueue (snd (deleteOrphanEntry p kv ndb)))"
  by (cases kv) (simp add: deleteOrphanEntry_def Let_def queueOK_uncacheNode queueOK_saveOrphan)

lemma queueOK_traverse:
  "queueOK (nodeCacheQueue ndb) \<Longrightarrow>
   queueOK (nodeCacheQueue (snd (traverseOrphansVersion version (deleteOrphanEntry p) ndb)))"
  unfolding traverseOrphansVersion_def traversePrefix_def
  by (rule forEach_invariant [where P = "\<lambda>s. queueOK (nodeCacheQueue s)"])
    (simp_all add: queueOK_deleteOrphanEntry)

lemma queueOK_deleteUnsavedOrphan:
  "queueOK (nodeCacheQueue (fst st)) \<Longrightarrow>
   queueOK (nodeCacheQueue (fst (snd (deleteUnsavedOrphan toVersion p hv st))))"
  by (cases hv; cases st)
    (simp add: deleteUnsavedOrphan_def Let_def saveOrphan_def queueOK_uncacheNode)

lemma queueOK_deleteOrphansWithPredecessor:
  assumes "queueOK (nodeCacheQueue ndb)"
  shows "queueOK (nodeCacheQueue
           (fst (snd (deleteOrphansWithPredecessor version p unsaved ndb))))"
proof -
  obtain r s where t: "traverseOrphansVersion version (deleteOrphanEntry p) ndb = (r, s)"
    by (cases "traverseOrphansVersion version (deleteOrphanEntry p) ndb")
  then have s: "queueOK (nodeCacheQueue s)"
    using queueOK_traverse [OF assms, of version p] by simp
  show ?thesis
  proof (cases unsaved)
    case None
    then show ?thesis
      using t s by (cases r) (simp_all add: deleteOrphansWithPredecessor_def)
  next
    case (Some m)
    define tv where "tv = (if 1 <s version then version + 1 else version)"
    obtain r' s' m' where f: "forEach (deleteUnsavedOrphan tv p) m (s, m) = (r', s', m')"
      by (cases "forEach (deleteUnsavedOrphan tv p) m (s, m)") auto
    have "queueOK (nodeCacheQueue (fst (snd (forEach (deleteUnsavedOrphan tv p) m (s, m)))))"
      by (rule forEach_invariant [where P = "\<lambda>st. queueOK (nodeCacheQueue (fst st))"])
        (simp_all add: s queueOK_deleteUnsavedOrphan)
    then have "queueOK (nodeCacheQueue s')"
      using f by simp
    then show ?thesis
      using t s Some f
      by (cases r) (simp_all add: deleteOrphansWithPredecessor_def Let_def tv_def [symmetric])
  qed
qed

lemma queueOK_deleteRoot:
  "queueOK (nodeCacheQueue ndb) \<Longrightarrow>
   queueOK (nodeCacheQueue (snd (deleteRoot version checkLatestVersion ndb)))"
  by (simp add: deleteRoot_def getLatestVersion_def Let_def)

lemma queueOK_deleteOrphans2:
  "queueOK (nodeCacheQueue ndb) \<Longrightarrow> queueOK (nodeCacheQueue (snd (deleteOrphans2 version ndb)))"
  by (simp add: deleteOrphans2_def queueOK_traverse)

lemma queueOK_deleteOrphans:
  "queueOK (nodeCacheQueue ndb) \<Longrightarrow> queueOK (nodeCacheQueue (snd (deleteOrphans version ndb)))"
  using queueOK_deleteOrphansWithPredecessor [of ndb version "getPreviousVersion version ndb" None]
  by (cases "deleteOrphansWithPredecessor version (getPreviousVersion version ndb) None ndb")
    (auto simp: deleteOrphans_def Let_def)

lemma queueOK_DeleteVersion2:
  assumes "queueOK (nodeCacheQueue ndb)"
  shows "queueOK (nodeCacheQueue (snd (DeleteVersion2 version checkLatestVersion ndb)))"
proof -
  have "DeleteVersion2 version checkLatestVersion ndb
        = deleteRoot version checkLatestVersion (snd (deleteOrphans2 version ndb))"
    using deleteOrphans2_Return [of version ndb]
    by (cases "deleteOrphans2 version ndb") (simp add: DeleteVersion2_def)
  then show ?thesis
    using assms by (simp add: queueOK_deleteRoot queueOK_deleteOrphans2)
qed

lemma queueOK_DeleteVersion:
  assumes "queueOK (nodeCacheQueue ndb)"
  shows "queueOK (nodeCacheQueue (snd (DeleteVersion version checkLatestVersion ndb)))"
proof -
  have "DeleteVersion version checkLatestVersion ndb
        = deleteRoot version checkLatestVersion (snd (deleteOrphans version ndb))"
    using deleteOrphans_Return [of version ndb]
    by (cases "deleteOrphans version ndb") (simp add: DeleteVersion_def)
  then show ?thesis
    using assms by (simp add: queueOK_deleteRoot queueOK_deleteOrphans)
qed

lemma queueOK_DeleteMemoryVersion:
  assumes "queueOK (nodeCacheQueue ndb)"
  shows "queueOK (nodeCacheQueue (fst (snd (DeleteMemoryVersion version previous unsaved ndb))))"
proof -
  obtain r s m where d: "deleteOrphansWithPredecessor version previous unsaved ndb = (r, s, m)"
    by (cases "deleteOrphansWithPredecessor version previous unsaved ndb") auto
  then have "queueOK (nodeCacheQueue s)"
    using queueOK_deleteOrphansWithPredecessor [OF assms, of version previous unsaved] by simp
  then show ?thesis
    using d by (cases r) (simp_all add: DeleteMemoryVersion_def deleteRoot_unchecked)
qed

lemma queueOK_saveRoot:
  "queueOK (nodeCacheQueue ndb) \<Longrightarrow> queueOK (nodeCacheQueue (snd (saveRoot h version ndb)))"
  by (simp add: saveRoot_eq updateLatestVersion_def getLatestVersion_def Let_def)

lemma queueOK_SaveRoot:
  "queueOK (nodeCacheQueue ndb) \<Longrightarrow> queueOK (nodeCacheQueue (snd (SaveRoot root version ndb)))"
  using queueOK_saveRoot [of ndb "string_of (hash (nodeAt root ndb))" version]
  by (cases "saveRoot (string_of (hash (nodeAt root ndb))) version ndb") (simp add: SaveRoot_def)

lemma queueOK_SaveOrphans:
  "queueOK (nodeCacheQueue ndb2) \<Longrightarrow>
   queueOK (nodeCacheQueue (snd (SaveOrphans2 version orphans ndb2)))"
  "queueOK (nodeCacheQueue ndb) \<Longrightarrow>
   queueOK (nodeCacheQueue (snd (SaveOrphans version orphans ndb)))"
  by (simp_all add: SaveOrphans2_def SaveOrphans_def forEach_saveOrphan Let_def)

lemma queueOK_Commit:
  assumes "queueOK (nodeCacheQueue ndb)"
  shows "queueOK (nodeCacheQueue (snd (Commit ndb)))"
proof -
  have "queueOK (nodeCacheQueue (written ndb))"
    using assms by simp
  then have "queueOK (nodeCacheQueue
               (trimmed (Len (nodeCacheQueue ndb) - nat (nodeCacheSize ndb)) (written ndb)))"
    by (rule queueOK_trimmed)
  then show ?thesis
    by (simp add: Commit_trimmed [OF assms])
qed

lemma queueOK_FlushCache:
  assumes "queueOK (nodeCacheQueue ndb)"
  shows "queueOK (nodeCacheQueue (snd (FlushCache ndb)))"
  using assms FlushCache_trimmed [of ndb] queueOK_trimmed [OF assms] by simp

lemma exec2_queueOK:
  "queueOK (nodeCacheQueue ndb) \<Longrightarrow> queueOK (nodeCacheQueue (exec2 c ndb))"
  by (cases c)
    (simp_all add: queueOK_GetNode2 queueOK_SaveNode2 queueOK_SaveOrphans queueOK_DeleteVersion2
      DeleteMemoryVersion2_def queueOK_SaveRoot SaveEmptyRoot_def queueOK_saveRoot Commit2_def
      ResetBatch2_def RestMemBatch2_def ResetMemNodes2_def getLatestVersion_def Let_def
      updateLatestVersion_def queueOK_saveOrphan queueOK_deleteOrphans2 queueOK_deleteRoot
      queueOK_uncacheNode queueOK_cacheNode2 writeNode_def newNode_def getCachedNode_def
      queueOK_MoveToBack split: sum.splits option.splits)

lemma exec_queueOK:
  "queueOK (nodeCacheQueue ndb) \<Longrightarrow> queueOK (nodeCacheQueue (exec c ndb))"
  by (cases c)
    (simp_all add: queueOK_GetNode queueOK_SaveNode queueOK_SaveOrphans queueOK_DeleteVersion
      queueOK_DeleteMemoryVersion queueOK_SaveRoot SaveEmptyRoot_def queueOK_saveRoot
      queueOK_Commit queueOK_FlushCache ResetBatch_def RestMemBatch_def ResetMemNodes_def
      getLatestVersion_def Let_def updateLatestVersion_def queueOK_saveOrphan
      queueOK_deleteOrphans queueOK_deleteOrphansWithPredecessor queueOK_deleteRoot
      queueOK_uncacheNode queueOK_cacheNode newNode_def split: option.splits)

section \<open>Recording an orphan\<close>

text \<open>
  C7. \<open>saveOrphan\<close> (the same body in both stores) panics exactly when the first version
  is greater than the last one, as signed 64-bit integers. Otherwise it appends one
  \<open>Set\<close> to the batch and changes nothing else: the key is the byte \<open>'o'\<close> (0x6F), then
  the last version, then the first version, then the hash, and the value is the hash.
  Each version takes 8 bytes, and read most significant byte first they give the
  version's unsigned value.
\<close>

theorem saveOrphan_records:
  "saveOrphan h fromVersion toVersion ndb =
     (if toVersion <s fromVersion then (Panic ''Orphan expires before it comes alive'', ndb)
      else (Return (), ndb\<lparr>batch := batch ndb @ [Set (0x6F # be64 toVersion @ be64 fromVersion @ h) h]\<rparr>))
   \<and> length (be64 toVersion) = 8 \<and> length (be64 fromVersion) = 8
   \<and> be_value (be64 toVersion) = unat toVersion \<and> be_value (be64 fromVersion) = unat fromVersion"
  by (simp add: saveOrphan_def batch_Set_def orphanKey_bytes)

section \<open>The maximum cache size\<close>

text \<open>
  C9. \<open>MaxChacheSizeExceeded\<close> of nodeDB2 is true in every state. The one of nodeDB is
  true exactly when \<open>nodeMaxCacheSize\<close> is positive and smaller than the length of the
  cache queue (converted to \<open>uint64\<close>, that is, taken modulo \<open>2 ^ 64\<close>).
\<close>

theorem MaxChacheSizeExceeded_results:
  "MaxChacheSizeExceeded2 ndb2 = True
   \<and> MaxChacheSizeExceeded ndb =
       (0 < unat (nodeMaxCacheSize ndb)
        \<and> unat (nodeMaxCacheSize ndb) < Len (nodeCacheQueue ndb) mod 2 ^ 64)"
  by (simp add: MaxChacheSizeExceeded2_def MaxChacheSizeExceeded_def word_less_nat_alt
      unat_of_nat)

section \<open>Saving a root\<close>

text \<open>
  C5. \<open>saveRoot\<close> (the same body in both stores; \<open>SaveEmptyRoot\<close> calls it with the
  empty hash, \<open>SaveRoot\<close> with the hash of a root node, which must not be empty and
  which is read through the pointer to the node)
  succeeds exactly when the version is \<open>getLatestVersion() + 1\<close>. Otherwise
  it returns the error and leaves the batch as it was. On success it appends
  \<open>Set (rootKey version) h\<close> to the batch, and when the new version is positive (as the
  versions of the spec are) \<open>getLatestVersion\<close> returns it from then on.
  \<open>getLatestVersion\<close> itself may fill the cached counter and never touches the batch.
\<close>

theorem saveRoot_consecutive:
  "saveRoot h version ndb =
     (if version = fst (getLatestVersion ndb) + 1
      then (None, updateLatestVersion version
                    ((snd (getLatestVersion ndb))\<lparr>batch := batch ndb @ [Set (rootKey version) h]\<rparr>))
      else (Some (MustSaveConsecutive (fst (getLatestVersion ndb) + 1) version),
            snd (getLatestVersion ndb)))
   \<and> batch (snd (getLatestVersion ndb)) = batch ndb
   \<and> batch (updateLatestVersion version ndb) = batch ndb
   \<and> SaveEmptyRoot version ndb = saveRoot [] version ndb
   \<and> SaveRoot root version ndb =
       (if \<not> isNode root ndb then (Panic ''nil pointer dereference'', ndb)
        else if string_of (hash (nodeAt root ndb)) = []
        then (Panic ''Hash should not be empty'', ndb)
        else (Return (fst (saveRoot (string_of (hash (nodeAt root ndb))) version ndb)),
              snd (saveRoot (string_of (hash (nodeAt root ndb))) version ndb)))
   \<and> (version = fst (getLatestVersion ndb) + 1 \<and> 0 <s version
        \<longrightarrow> fst (getLatestVersion (snd (saveRoot h version ndb))) = version)"
proof -
  have "batch (updateLatestVersion version ndb) = batch ndb"
    by (simp add: updateLatestVersion_def)
  moreover have "SaveEmptyRoot version ndb = saveRoot [] version ndb"
    by (simp add: SaveEmptyRoot_def)
  moreover have "SaveRoot root version ndb =
       (if \<not> isNode root ndb then (Panic ''nil pointer dereference'', ndb)
        else if string_of (hash (nodeAt root ndb)) = []
        then (Panic ''Hash should not be empty'', ndb)
        else (Return (fst (saveRoot (string_of (hash (nodeAt root ndb))) version ndb)),
              snd (saveRoot (string_of (hash (nodeAt root ndb))) version ndb)))"
    by (simp add: SaveRoot_def split: prod.splits)
  moreover note saveRoot_eq [of h version ndb] getLatestVersion_batch [of ndb]
    saveRoot_latest [of version ndb h]
  ultimately show ?thesis
    by blast
qed

theorem saveRoot_consecutive_witness:
  "((1 :: int64) = fst (getLatestVersion emptyStore2) + 1 \<and> 0 <s (1 :: int64))
   \<and> fst (getLatestVersion (snd (saveRoot [7] 1 emptyStore2))) = 1"
proof -
  have "fst (getLatestVersion emptyStore2) = 0"
    by (simp add: getLatestVersion_def emptyStore2_def NewNodeDB2_def getPreviousVersion_def
        getPreviousVersioni_empty)
  then have hyp: "(1 :: int64) = fst (getLatestVersion emptyStore2) + 1 \<and> 0 <s (1 :: int64)"
    by (simp add: word_sless_alt)
  with saveRoot_consecutive [of "[7]" 1 emptyStore2] show ?thesis
    by blast
qed

section \<open>Deleting a version and the latest-version counter\<close>

text \<open>
  C10. \<open>DeleteVersion\<close> without the check on the latest version returns, queues the
  deletion of the root entry as its last batch operation, and leaves the field
  \<open>latestVersion\<close> and the value of \<open>getLatestVersion\<close> as they were, in both stores
  and for every version (the latest one included). So does \<open>DeleteMemoryVersion\<close>, which
  deletes the root without the check as well.

  The counter is the field \<open>latestVersion\<close>. \<open>resetLatestVersion\<close> sets it to whatever it
  is given. No other method lowers it: \<open>exec\<close> and \<open>exec2\<close> run one call of any other
  method of the store (and the writes of the caller to the nodes), and after one call, and
  so after any sequence of calls, the counter is at least what it was, as signed integers.
  Three methods write the field: \<open>resetLatestVersion\<close>; \<open>updateLatestVersion\<close>, which only
  raises it; and \<open>getLatestVersion\<close>, which leaves a counter other than 0 alone and returns
  it, and loads a counter that is 0 from the root index of the backing store, with the
  largest version below \<open>MaxInt64\<close> that has a root entry, which is never negative. What
  \<open>getLatestVersion\<close> returns is the counter it leaves behind, so a version that it has
  returned is not undercut by what it returns after any later calls.
\<close>

theorem DeleteVersion_keeps_latestVersion:
  fixes ndb2 :: "'a nodeDB2" and ndb :: "'a nodeDB"
  shows
  "fst (DeleteVersion2 version False ndb2) = Return ()
   \<and> last (batch (snd (DeleteVersion2 version False ndb2))) = Delete (rootKey version)
   \<and> latestVersion (snd (DeleteVersion2 version False ndb2)) = latestVersion ndb2
   \<and> fst (getLatestVersion (snd (DeleteVersion2 version False ndb2))) = fst (getLatestVersion ndb2)
   \<and> fst (DeleteVersion version False ndb) = Return ()
   \<and> last (batch (snd (DeleteVersion version False ndb))) = Delete (rootKey version)
   \<and> latestVersion (snd (DeleteVersion version False ndb)) = latestVersion ndb
   \<and> fst (getLatestVersion (snd (DeleteVersion version False ndb))) = fst (getLatestVersion ndb)
   \<and> DeleteMemoryVersion2 version previous ndb2 = DeleteVersion2 version False ndb2
   \<and> latestVersion (fst (snd (DeleteMemoryVersion version previous unsaved ndb)))
       = latestVersion ndb
   \<and> fst (getLatestVersion (fst (snd (DeleteMemoryVersion version previous unsaved ndb))))
       = fst (getLatestVersion ndb)
   \<and> latestVersion (resetLatestVersion v ndb) = v
   \<and> latestVersion ndb \<le>s latestVersion (updateLatestVersion v ndb)
   \<and> updateLatestVersion v ndb
       = (if latestVersion ndb <s v then ndb\<lparr>latestVersion := v\<rparr> else ndb)
   \<and> getLatestVersion ndb
       = (if latestVersion ndb = 0
          then (getPreviousVersioni MaxInt64 (db ndb),
                ndb\<lparr>latestVersion := getPreviousVersioni MaxInt64 (db ndb)\<rparr>)
          else (latestVersion ndb, ndb))
   \<and> 0 \<le>s getPreviousVersioni MaxInt64 d
   \<and> latestVersion ndb \<le>s latestVersion (snd (getLatestVersion ndb))
   \<and> fst (getLatestVersion ndb) = latestVersion (snd (getLatestVersion ndb))
   \<and> latestVersion ndb2 \<le>s latestVersion (exec2 c2 ndb2)
   \<and> latestVersion ndb \<le>s latestVersion (exec c ndb)
   \<and> latestVersion ndb2 \<le>s latestVersion (foldl (\<lambda>s c. exec2 c s) ndb2 cs2)
   \<and> latestVersion ndb \<le>s latestVersion (foldl (\<lambda>s c. exec c s) ndb cs)
   \<and> fst (getLatestVersion ndb2)
       \<le>s fst (getLatestVersion (foldl (\<lambda>s c. exec2 c s) (snd (getLatestVersion ndb2)) cs2))
   \<and> fst (getLatestVersion ndb)
       \<le>s fst (getLatestVersion (foldl (\<lambda>s c. exec c s) (snd (getLatestVersion ndb)) cs))"
proof -
  let ?s2 = "snd (DeleteVersion2 version False ndb2)" and ?s = "snd (DeleteVersion version False ndb)"
  let ?m = "fst (snd (DeleteMemoryVersion version previous unsaved ndb))"
  have keeps2: "db ?s2 = db ndb2" "latestVersion ?s2 = latestVersion ndb2"
    by (simp_all add: DeleteVersion2_unchecked deleteOrphans2_keeps)
  have keeps: "db ?s = db ndb" "latestVersion ?s = latestVersion ndb"
    by (simp_all add: DeleteVersion_unchecked deleteOrphans_keeps)
  have keepsm: "db ?m = db ndb" "latestVersion ?m = latestVersion ndb"
    using DeleteMemoryVersion_keeps [of version previous unsaved ndb] by simp_all
  have g2: "fst (getLatestVersion ?s2) = fst (getLatestVersion ndb2)"
    using keeps2 by (rule getLatestVersion_db_only)
  have g1: "fst (getLatestVersion ?s) = fst (getLatestVersion ndb)"
    using keeps by (rule getLatestVersion_db_only)
  have gm: "fst (getLatestVersion ?m) = fst (getLatestVersion ndb)"
    using keepsm by (rule getLatestVersion_db_only)
  have r: "fst (DeleteVersion2 version False ndb2) = Return ()"
    "last (batch (snd (DeleteVersion2 version False ndb2))) = Delete (rootKey version)"
    "fst (DeleteVersion version False ndb) = Return ()"
    "last (batch (snd (DeleteVersion version False ndb))) = Delete (rootKey version)"
    "DeleteMemoryVersion2 version previous ndb2 = DeleteVersion2 version False ndb2"
    "latestVersion (resetLatestVersion v ndb) = v"
    by (simp_all add: DeleteVersion2_unchecked DeleteVersion_unchecked resetLatestVersion_def
        DeleteMemoryVersion2_def)
  have u: "updateLatestVersion v ndb
       = (if latestVersion ndb <s v then ndb\<lparr>latestVersion := v\<rparr> else ndb)"
    by (rule updateLatestVersion_def)
  have g: "getLatestVersion ndb
       = (if latestVersion ndb = 0
          then (getPreviousVersioni MaxInt64 (db ndb),
                ndb\<lparr>latestVersion := getPreviousVersioni MaxInt64 (db ndb)\<rparr>)
          else (latestVersion ndb, ndb))"
    by (simp add: getLatestVersion_def getPreviousVersion_def Let_def)
  have l: "fst (getLatestVersion ndb) = latestVersion (snd (getLatestVersion ndb))"
    by (simp add: latestVersion_getLatestVersion)
  have o2: "fst (getLatestVersion ndb2)
       \<le>s fst (getLatestVersion (foldl (\<lambda>s c. exec2 c s) (snd (getLatestVersion ndb2)) cs2))"
  proof -
    let ?t = "foldl (\<lambda>s c. exec2 c s) (snd (getLatestVersion ndb2)) cs2"
    have "latestVersion (snd (getLatestVersion ndb2)) \<le>s latestVersion ?t"
      by (rule run2_grows)
    also have "latestVersion ?t \<le>s latestVersion (snd (getLatestVersion ?t))"
      by (rule getLatestVersion_grows)
    finally show ?thesis
      by (simp add: latestVersion_getLatestVersion)
  qed
  have o1: "fst (getLatestVersion ndb)
       \<le>s fst (getLatestVersion (foldl (\<lambda>s c. exec c s) (snd (getLatestVersion ndb)) cs))"
  proof -
    let ?t = "foldl (\<lambda>s c. exec c s) (snd (getLatestVersion ndb)) cs"
    have "latestVersion (snd (getLatestVersion ndb)) \<le>s latestVersion ?t"
      by (rule run_grows)
    also have "latestVersion ?t \<le>s latestVersion (snd (getLatestVersion ?t))"
      by (rule getLatestVersion_grows)
    finally show ?thesis
      by (simp add: latestVersion_getLatestVersion)
  qed
  show ?thesis
    by (intro conjI)
      (fact r keeps2(2) keeps(2) keepsm(2) g2 g1 gm updateLatestVersion_grows u g
        getPreviousVersioni_MaxInt64 getLatestVersion_grows l exec2_grows exec_grows
        run2_grows run_grows o2 o1)+
qed

text \<open>
  An example of the load. \<open>unloadedStore2\<close> is a new store on a backing store with the
  root entries of the versions 1, 2 and 3; its counter is 0, not loaded, and
  \<open>getLatestVersion\<close> reads 3 from the root index. After \<open>DeleteVersion 3\<close> without the
  check and \<open>Commit\<close> the counter is still 0 and \<open>getLatestVersion\<close> reads 2, the largest
  version that is left: the counter goes from 0 to 2. Had \<open>getLatestVersion\<close> been called
  before, the counter would be 3 and stay 3 through the same calls.
\<close>

lemma latestVersion_load_example:
  "latestVersion unloadedStore2 = 0
   \<and> getLatestVersion unloadedStore2 = (3, unloadedStore2\<lparr>latestVersion := 3\<rparr>)
   \<and> latestVersion (Commit2 (snd (DeleteVersion2 3 False unloadedStore2))) = 0
   \<and> fst (getLatestVersion (Commit2 (snd (DeleteVersion2 3 False unloadedStore2)))) = 2
   \<and> fst (getLatestVersion
            (Commit2 (snd (DeleteVersion2 3 False (snd (getLatestVersion unloadedStore2)))))) = 3"
proof -
  have a: "getLatestVersion unloadedStore2 = (3, unloadedStore2\<lparr>latestVersion := 3\<rparr>)"
    by (simp add: unloadedStore2_def NewNodeDB2_def threeVersions_def getLatestVersion_def
        MaxInt64_def Let_def db_eval key_eval)
  have b: "db (Commit2 (snd (DeleteVersion2 3 False s)))
           = batch_Write (batch s @ concat (map (pruneOps (getPreviousVersion 3 s))
                                              (expiringAt 3 (db s)))
                          @ [Delete (rootKey 3)]) (db s)"
    "latestVersion (Commit2 (snd (DeleteVersion2 3 False s))) = latestVersion s"
    for s :: "unit nodeDB2"
    by (simp_all add: Commit2_def DeleteVersion2_unchecked deleteOrphans2_eq)
  have e: "expiringAt 3 threeVersions = []"
    by (simp add: expiringAt_def threeVersions_def db_eval key_eval)
  have d: "batch_Write [Delete (rootKey 3)] threeVersions
           = [(rootKey 1, [9]), (rootKey 2, [8]),
              (orphanKey 1 2 [7], [7]), (orphanKey 2 2 [5], [5]),
              (nodeKey [7], [1]), (nodeKey [5], [2])]"
    by (simp add: threeVersions_def batch_Write_def AList.delete_eq key_eval)
  have p: "getPreviousVersioni MaxInt64
             [(rootKey 1, [9]), (rootKey 2, [8]),
              (orphanKey 1 2 [7], [7]), (orphanKey 2 2 [5], [5]),
              (nodeKey [7], [1]), (nodeKey [5], [2])] = 2"
    by (simp add: MaxInt64_def db_eval key_eval)
  have c: "latestVersion (Commit2 (snd (DeleteVersion2 3 False unloadedStore2))) = 0"
    "db (Commit2 (snd (DeleteVersion2 3 False unloadedStore2)))
     = batch_Write [Delete (rootKey 3)] threeVersions"
    by (simp_all add: b) (simp_all add: unloadedStore2_def NewNodeDB2_def e)
  have "fst (getLatestVersion (Commit2 (snd (DeleteVersion2 3 False unloadedStore2)))) = 2"
    using c by (simp add: getLatestVersion_def getPreviousVersion_def Let_def d p)
  moreover have "fst (getLatestVersion
            (Commit2 (snd (DeleteVersion2 3 False (snd (getLatestVersion unloadedStore2)))))) = 3"
  proof -
    have "latestVersion (Commit2 (snd (DeleteVersion2 3 False (unloadedStore2\<lparr>latestVersion := 3\<rparr>))))
          = 3"
      by (simp add: b)
    then have "fst (getLatestVersion
                 (Commit2 (snd (DeleteVersion2 3 False (unloadedStore2\<lparr>latestVersion := 3\<rparr>))))) = 3"
      by (simp add: getLatestVersion_def Let_def)
    then show ?thesis
      by (simp only: a snd_conv)
  qed
  moreover have "latestVersion unloadedStore2 = 0"
    by (simp add: unloadedStore2_def NewNodeDB2_def)
  ultimately show ?thesis
    using a c(1) by simp
qed

section \<open>Saving orphans\<close>

text \<open>
  C1 (as amended). \<open>SaveOrphans\<close> of nodeDB records every entry \<open>(hash, first)\<close> of the
  map with \<open>last = version - 1\<close> (64-bit subtraction): it appends
  \<open>Set (orphanKey first (version - 1) hash) hash\<close> for the entries in the order of the
  iteration, up to the first entry whose first version is above \<open>version - 1\<close>, where
  \<open>saveOrphan\<close> panics. \<open>SaveOrphans\<close> of nodeDB2 does the same with
  \<open>last = getPreviousVersion version\<close>, the predecessor found in the root index of the
  backing store, in place of \<open>version - 1\<close>. The key of an entry scans back to its last
  and first version. For a positive version and well-formed root keys that predecessor
  is the one of the specification, and it is \<open>version - 1\<close> whenever the backing store has
  a root entry for \<open>version - 1\<close>.
\<close>

theorem SaveOrphans_lifetime:
  fixes ndb2 :: "'a nodeDB2" and ndb :: "'b nodeDB"
  shows
  "SaveOrphans version orphans ndb =
     (if list_all (\<lambda>(h, fromVersion). fromVersion \<le>s version - 1) orphans
      then Return () else Panic ''Orphan expires before it comes alive'',
      ndb\<lparr>batch := batch ndb
           @ map (\<lambda>(h, fromVersion). Set (orphanKey fromVersion (version - 1) h) h)
               (takeWhile (\<lambda>(h, fromVersion). fromVersion \<le>s version - 1) orphans)\<rparr>)
   \<and> SaveOrphans2 version orphans ndb2 =
     (if list_all (\<lambda>(h, fromVersion). fromVersion \<le>s getPreviousVersion version ndb2) orphans
      then Return () else Panic ''Orphan expires before it comes alive'',
      ndb2\<lparr>batch := batch ndb2
           @ map (\<lambda>(h, fromVersion).
                    Set (orphanKey fromVersion (getPreviousVersion version ndb2) h) h)
               (takeWhile (\<lambda>(h, fromVersion). fromVersion \<le>s getPreviousVersion version ndb2)
                  orphans)\<rparr>)
   \<and> Scan_int64 (orphanKey fromVersion toVersion h) 0 = toVersion
   \<and> Scan_int64 (orphanKey fromVersion toVersion h) 1 = fromVersion
   \<and> (0 <s version \<and> rootKeysWellFormed (db ndb2) \<longrightarrow>
        isPredecessor (db ndb2) version (getPreviousVersion version ndb2))
   \<and> (1 <s version \<and> rootKeysWellFormed (db ndb2) \<and> hasRoot (db ndb2) (version - 1) \<longrightarrow>
        getPreviousVersion version ndb2 = version - 1)"
  by (simp add: SaveOrphans_def SaveOrphans2_def forEach_saveOrphan Scan_orphanKey Let_def
      getPreviousVersion_def getPreviousVersioni_isPredecessor getPreviousVersioni_pred
      del: One_nat_def)

theorem SaveOrphans_lifetime_witness:
  "((1 :: int64) <s 2 \<and> rootKeysWellFormed (db rootedStore2)
     \<and> hasRoot (db rootedStore2) (2 - 1))
   \<and> getPreviousVersion 2 rootedStore2 = 2 - 1"
proof -
  have "(1 :: int64) <s 2 \<and> rootKeysWellFormed (db rootedStore2)
     \<and> hasRoot (db rootedStore2) (2 - 1)"
    by (simp add: rootedStore2_eq emptyStore2_def NewNodeDB2_def rootKeysWellFormed_def
        hasRoot_def db_Get_def key_eval int64Size_def word_sless_alt)
  with SaveOrphans_lifetime [where version = 2 and ?ndb2.0 = rootedStore2]
  show ?thesis
    by blast
qed

text \<open>
  C1 as stated fails for nodeDB2. In \<open>prunedStore2\<close> versions 1 and 2 were saved and
  committed and version 2 was deleted again (without the check), so the root index holds
  version 1 only. Saving the orphans of version 3 there records last version 1, not
  \<open>3 - 1 = 2\<close>.
\<close>

theorem SaveOrphans2_counterexample:
  "SaveOrphans2 3 [([7], 1)] prunedStore2
     = (Return (), prunedStore2\<lparr>batch := [Set (orphanKey 1 1 [7]) [7]]\<rparr>)
   \<and> Scan_int64 (orphanKey 1 1 [7]) 0 = 1
   \<and> (3 :: int64) - 1 = 2
   \<and> orphanKey 1 1 [7] \<noteq> orphanKey 1 (3 - 1) [7]"
  by (simp add: prunedStore2_eq SaveOrphans2_def saveOrphan_def emptyStore2_def NewNodeDB2_def
      Let_def db_eval key_eval word_sless_alt)

section \<open>Deleting the orphans of a version\<close>

text \<open>
  C3. \<open>deleteOrphans\<close>, the first step of \<open>DeleteVersion\<close>, returns in either store
  (\<open>DeleteVersion\<close> without the check then queues the deletion of the root entry and
  returns), and for the entries
  \<open>expiringAt version\<close> of the backing store, in order, it appends \<open>pruneOps\<close> to the batch:
  the orphan entry is always deleted; the node entry is deleted exactly when
  \<open>orphanPruned\<close> holds (predecessor below first, or first equal to last), and otherwise
  an orphan entry with the same first version and last version \<open>predecessor\<close> is set and
  no deletion of the node entry is queued. The cache afterwards is \<open>uncachePruned\<close>, the
  cache before without the pruned nodes: the map has lost the entries under the hashes of
  the pruned entries, the queue has lost the elements that these entries of the map
  pointed to and keeps the others in their order, and the nodes themselves are as they
  were. Every visited entry has last version
  \<open>version\<close>. For a positive version and a store whose root keys are well formed the
  predecessor that the code computes is the largest version below \<open>version\<close> with a root
  entry in the backing store (0 if none); it is below \<open>version\<close>, so the new last version
  is below the old one.
\<close>

theorem deleteOrphans_per_entry:
  fixes ndb2 :: "'a nodeDB2" and ndb :: "'b nodeDB"
  shows
  "deleteOrphans2 version ndb2
     = (Return (),
        (uncachePruned (getPreviousVersion version ndb2) (expiringAt version (db ndb2)) ndb2)
          \<lparr>batch := batch ndb2 @ concat (map (pruneOps (getPreviousVersion version ndb2))
                                           (expiringAt version (db ndb2)))\<rparr>)
   \<and> nodeCache (snd (deleteOrphans2 version ndb2))
       = nodeCache ndb2 |` (- {h. \<exists>key. (key, h) \<in> set (expiringAt version (db ndb2))
                                  \<and> orphanPruned (getPreviousVersion version ndb2) key})
   \<and> elems (nodeCacheQueue (snd (deleteOrphans2 version ndb2)))
       = filter (\<lambda>e. Some e \<notin> nodeCache ndb2 `
                        {h. \<exists>key. (key, h) \<in> set (expiringAt version (db ndb2))
                             \<and> orphanPruned (getPreviousVersion version ndb2) key})
           (elems (nodeCacheQueue ndb2))
   \<and> allocated (nodeCacheQueue (snd (deleteOrphans2 version ndb2)))
       = allocated (nodeCacheQueue ndb2)
   \<and> nodes (snd (deleteOrphans2 version ndb2)) = nodes ndb2
   \<and> deleteOrphans version ndb
     = (Return (),
        (uncachePruned (getPreviousVersion version ndb) (expiringAt version (db ndb)) ndb)
          \<lparr>batch := batch ndb @ concat (map (pruneOps (getPreviousVersion version ndb))
                                          (expiringAt version (db ndb)))\<rparr>)
   \<and> nodeCache (snd (deleteOrphans version ndb))
       = nodeCache ndb |` (- {h. \<exists>key. (key, h) \<in> set (expiringAt version (db ndb))
                                 \<and> orphanPruned (getPreviousVersion version ndb) key})
   \<and> elems (nodeCacheQueue (snd (deleteOrphans version ndb)))
       = filter (\<lambda>e. Some e \<notin> nodeCache ndb `
                        {h. \<exists>key. (key, h) \<in> set (expiringAt version (db ndb))
                             \<and> orphanPruned (getPreviousVersion version ndb) key})
           (elems (nodeCacheQueue ndb))
   \<and> allocated (nodeCacheQueue (snd (deleteOrphans version ndb)))
       = allocated (nodeCacheQueue ndb)
   \<and> nodes (snd (deleteOrphans version ndb)) = nodes ndb
   \<and> uncachePruned p es ndb2
     = ndb2\<lparr>nodeCacheQueue :=
              (nodeCacheQueue ndb2)
                \<lparr>elems := filter (\<lambda>e. Some e \<notin> nodeCache ndb2 ` set (prunedHashes p es))
                                (elems (nodeCacheQueue ndb2))\<rparr>,
            nodeCache := nodeCache ndb2 |` (- set (prunedHashes p es))\<rparr>
   \<and> set (prunedHashes p es) = {h. \<exists>key. (key, h) \<in> set es \<and> orphanPruned p key}
   \<and> DeleteVersion2 version False ndb2
     = (Return (),
        (uncachePruned (getPreviousVersion version ndb2) (expiringAt version (db ndb2)) ndb2)
          \<lparr>batch := batch ndb2 @ concat (map (pruneOps (getPreviousVersion version ndb2))
                                           (expiringAt version (db ndb2)))
                     @ [Delete (rootKey version)]\<rparr>)
   \<and> DeleteVersion version False ndb
     = (Return (),
        (uncachePruned (getPreviousVersion version ndb) (expiringAt version (db ndb)) ndb)
          \<lparr>batch := batch ndb @ concat (map (pruneOps (getPreviousVersion version ndb))
                                          (expiringAt version (db ndb)))
                     @ [Delete (rootKey version)]\<rparr>)
   \<and> list_all (\<lambda>(key, h). Scan_int64 key 0 = version) (expiringAt version d)
   \<and> (0 <s version \<and> rootKeysWellFormed d \<longrightarrow>
        getPreviousVersioni version d <s version
        \<and> isPredecessor d version (getPreviousVersioni version d))"
proof -
  have q: "elems (nodeCacheQueue (uncachePruned p' es' s))
           = filter (\<lambda>e. Some e \<notin> nodeCache s ` {h. \<exists>key. (key, h) \<in> set es' \<and> orphanPruned p' key})
               (elems (nodeCacheQueue s))"
    "allocated (nodeCacheQueue (uncachePruned p' es' s)) = allocated (nodeCacheQueue s)"
    for p' es' and s :: "('c, 'd) nodeDB2_scheme"
    by (simp_all add: uncachePruned_def set_prunedHashes)
  have u: "uncachePruned p es ndb2
     = ndb2\<lparr>nodeCacheQueue :=
              (nodeCacheQueue ndb2)
                \<lparr>elems := filter (\<lambda>e. Some e \<notin> nodeCache ndb2 ` set (prunedHashes p es))
                                (elems (nodeCacheQueue ndb2))\<rparr>,
            nodeCache := nodeCache ndb2 |` (- set (prunedHashes p es))\<rparr>"
    by (rule uncachePruned_def)
  have pred: "0 <s version \<and> rootKeysWellFormed d \<longrightarrow>
        getPreviousVersioni version d <s version
        \<and> isPredecessor d version (getPreviousVersioni version d)"
    by (simp add: getPreviousVersioni_less getPreviousVersioni_isPredecessor)
  have l: "list_all (\<lambda>(key, h). Scan_int64 key 0 = version) (expiringAt version d)"
    by (rule expiringAt_last)
  have d2: "deleteOrphans2 version ndb2
     = (Return (),
        (uncachePruned (getPreviousVersion version ndb2) (expiringAt version (db ndb2)) ndb2)
          \<lparr>batch := batch ndb2 @ concat (map (pruneOps (getPreviousVersion version ndb2))
                                           (expiringAt version (db ndb2)))\<rparr>)"
    by (rule deleteOrphans2_eq)
  have d1: "deleteOrphans version ndb
     = (Return (),
        (uncachePruned (getPreviousVersion version ndb) (expiringAt version (db ndb)) ndb)
          \<lparr>batch := batch ndb @ concat (map (pruneOps (getPreviousVersion version ndb))
                                          (expiringAt version (db ndb)))\<rparr>)"
    by (rule deleteOrphans_eq)
  have f2: "nodeCache (snd (deleteOrphans2 version ndb2))
       = nodeCache ndb2 |` (- {h. \<exists>key. (key, h) \<in> set (expiringAt version (db ndb2))
                                  \<and> orphanPruned (getPreviousVersion version ndb2) key})"
    "elems (nodeCacheQueue (snd (deleteOrphans2 version ndb2)))
       = filter (\<lambda>e. Some e \<notin> nodeCache ndb2 `
                        {h. \<exists>key. (key, h) \<in> set (expiringAt version (db ndb2))
                             \<and> orphanPruned (getPreviousVersion version ndb2) key})
           (elems (nodeCacheQueue ndb2))"
    "allocated (nodeCacheQueue (snd (deleteOrphans2 version ndb2)))
       = allocated (nodeCacheQueue ndb2)"
    "nodes (snd (deleteOrphans2 version ndb2)) = nodes ndb2"
    unfolding d2 by (simp_all add: nodeCache_uncachePruned q)
  have f1: "nodeCache (snd (deleteOrphans version ndb))
       = nodeCache ndb |` (- {h. \<exists>key. (key, h) \<in> set (expiringAt version (db ndb))
                                 \<and> orphanPruned (getPreviousVersion version ndb) key})"
    "elems (nodeCacheQueue (snd (deleteOrphans version ndb)))
       = filter (\<lambda>e. Some e \<notin> nodeCache ndb `
                        {h. \<exists>key. (key, h) \<in> set (expiringAt version (db ndb))
                             \<and> orphanPruned (getPreviousVersion version ndb) key})
           (elems (nodeCacheQueue ndb))"
    "allocated (nodeCacheQueue (snd (deleteOrphans version ndb)))
       = allocated (nodeCacheQueue ndb)"
    "nodes (snd (deleteOrphans version ndb)) = nodes ndb"
    unfolding d1 by (simp_all add: nodeCache_uncachePruned q)
  have v2: "DeleteVersion2 version False ndb2
     = (Return (),
        (uncachePruned (getPreviousVersion version ndb2) (expiringAt version (db ndb2)) ndb2)
          \<lparr>batch := batch ndb2 @ concat (map (pruneOps (getPreviousVersion version ndb2))
                                           (expiringAt version (db ndb2)))
                     @ [Delete (rootKey version)]\<rparr>)"
    by (simp add: DeleteVersion2_unchecked deleteOrphans2_eq)
  have v1: "DeleteVersion version False ndb
     = (Return (),
        (uncachePruned (getPreviousVersion version ndb) (expiringAt version (db ndb)) ndb)
          \<lparr>batch := batch ndb @ concat (map (pruneOps (getPreviousVersion version ndb))
                                          (expiringAt version (db ndb)))
                     @ [Delete (rootKey version)]\<rparr>)"
    by (simp add: DeleteVersion_unchecked deleteOrphans_eq)
  show ?thesis
    by (intro conjI) (fact d2 d1 f2 f1 u set_prunedHashes v2 v1 l pred)+
qed

theorem deleteOrphans_per_entry_witness:
  "(0 <s (2 :: int64) \<and> rootKeysWellFormed (db cachedPrunable2))
   \<and> getPreviousVersioni 2 (db cachedPrunable2) <s 2
   \<and> isPredecessor (db cachedPrunable2) 2 (getPreviousVersioni 2 (db cachedPrunable2))
   \<and> list_all (\<lambda>(key, h). Scan_int64 key 0 = 2) (expiringAt 2 (db cachedPrunable2))
   \<and> expiringAt 2 (db cachedPrunable2) = [(orphanKey 1 2 [7], [7]), (orphanKey 2 2 [5], [5])]
   \<and> elems (nodeCacheQueue cachedPrunable2) = [(0, 0), (1, 1)]
   \<and> nodeCache cachedPrunable2 = [[5] \<mapsto> (0, 0), [7] \<mapsto> (1, 1)]
   \<and> batch (snd (deleteOrphans2 2 cachedPrunable2))
       = [Delete (orphanKey 1 2 [7]), Set (orphanKey 1 1 [7]) [7],
          Delete (orphanKey 2 2 [5]), Delete (nodeKey [5])]
   \<and> elems (nodeCacheQueue (snd (deleteOrphans2 2 cachedPrunable2))) = [(1, 1)]
   \<and> nodeCache (snd (deleteOrphans2 2 cachedPrunable2)) = [[7] \<mapsto> (1, 1)]"
proof -
  have hyp: "0 <s (2 :: int64) \<and> rootKeysWellFormed (db cachedPrunable2)"
    by (simp add: cachedPrunable2_eq prunableStore2_def NewNodeDB2_def)
      (simp add: rootKeysWellFormed_def threeVersions_def key_eval int64Size_def word_sless_alt)
  have st: "elems (nodeCacheQueue cachedPrunable2) = [(0, 0), (1, 1)]"
    "nodeCache cachedPrunable2 = [[5] \<mapsto> (0, 0), [7] \<mapsto> (1, 1)]"
    "batch cachedPrunable2 = []"
    by (simp_all add: cachedPrunable2_eq prunableStore2_def NewNodeDB2_def)
  have ops: "concat (map (pruneOps 1) [(orphanKey 1 2 [7], [7]), (orphanKey 2 2 [5], [5])])
        = [Delete (orphanKey 1 2 [7]), Set (orphanKey 1 1 [7]) [7],
           Delete (orphanKey 2 2 [5]), Delete (nodeKey [5])]"
    by (simp add: pruneOps_def orphanPruned_def Scan_orphanKey word_sless_alt del: One_nat_def)
  have m: "[[5 :: byte] \<mapsto> (0 :: nat, 0 :: nat), [7] \<mapsto> (1, 1)] |` (- set [[5]]) = [[7] \<mapsto> (1, 1)]"
    by (auto simp: fun_eq_iff restrict_map_def)
  have fl: "filter (\<lambda>e. Some e \<notin> [[5 :: byte] \<mapsto> (0 :: nat, 0 :: nat), [7] \<mapsto> (1, 1)] ` set [[5]])
              [(0, 0), (1, 1)] = [(1, 1)]"
    by simp
  from deleteOrphans_per_entry [where version = 2 and d = "db cachedPrunable2"
      and ?ndb2.0 = cachedPrunable2 and ndb = "NewNodeDB [] 10 None :: unit nodeDB"
      and p = 1 and es = "[(orphanKey 1 2 [7], [7]), (orphanKey 2 2 [5], [5])]"] hyp
  have a: "getPreviousVersioni 2 (db cachedPrunable2) <s 2"
      "isPredecessor (db cachedPrunable2) 2 (getPreviousVersioni 2 (db cachedPrunable2))"
      "list_all (\<lambda>(key, h). Scan_int64 key 0 = 2) (expiringAt 2 (db cachedPrunable2))"
    and d: "deleteOrphans2 2 cachedPrunable2
     = (Return (),
        (uncachePruned (getPreviousVersion 2 cachedPrunable2)
           (expiringAt 2 (db cachedPrunable2)) cachedPrunable2)
          \<lparr>batch := batch cachedPrunable2
                     @ concat (map (pruneOps (getPreviousVersion 2 cachedPrunable2))
                                 (expiringAt 2 (db cachedPrunable2)))\<rparr>)"
    and u: "uncachePruned 1 [(orphanKey 1 2 [7], [7]), (orphanKey 2 2 [5], [5])] cachedPrunable2
     = cachedPrunable2\<lparr>nodeCacheQueue :=
              (nodeCacheQueue cachedPrunable2)
                \<lparr>elems := filter (\<lambda>e. Some e \<notin> nodeCache cachedPrunable2 `
                                       set (prunedHashes 1 [(orphanKey 1 2 [7], [7]),
                                                            (orphanKey 2 2 [5], [5])]))
                                (elems (nodeCacheQueue cachedPrunable2))\<rparr>,
            nodeCache := nodeCache cachedPrunable2
                           |` (- set (prunedHashes 1 [(orphanKey 1 2 [7], [7]),
                                                      (orphanKey 2 2 [5], [5])]))\<rparr>"
    by blast+
  have "batch (snd (deleteOrphans2 2 cachedPrunable2))
       = [Delete (orphanKey 1 2 [7]), Set (orphanKey 1 1 [7]) [7],
          Delete (orphanKey 2 2 [5]), Delete (nodeKey [5])]"
    and "elems (nodeCacheQueue (snd (deleteOrphans2 2 cachedPrunable2))) = [(1, 1)]"
    and "nodeCache (snd (deleteOrphans2 2 cachedPrunable2)) = [[7] \<mapsto> (1, 1)]"
    unfolding d cachedPrunable2_scan u st
    by (simp_all only: ops m fl snd_conv append_Nil) simp_all
  with hyp a cachedPrunable2_scan(2) st(1,2) show ?thesis
    by blast
qed

section \<open>Deleting the latest version\<close>

text \<open>
  C4 (as amended). \<open>DeleteVersion version True\<close> with \<open>version\<close> the latest version
  panics with "Tried to delete latest version" in both stores, and queues no deletion of
  the root entry. The check is made by \<open>deleteRoot\<close>, after \<open>deleteOrphans\<close> has run:
  at the panic the batch holds the operations \<open>pruneOps\<close> for the orphan entries whose
  last version is \<open>version\<close>, and the pruned nodes have left the cache. When the backing
  store has no such orphan entry, batch and cache are as before the call. (The counter
  \<open>latestVersion\<close> holds the latest version afterwards; \<open>getLatestVersion\<close> fills it
  when it was 0.)
\<close>

theorem DeleteVersion_latest_after_orphans:
  fixes ndb2 :: "'a nodeDB2" and ndb :: "'b nodeDB"
  shows
  "(version = fst (getLatestVersion ndb2) \<longrightarrow>
      DeleteVersion2 version True ndb2
      = (Panic ''Tried to delete latest version'',
         (uncachePruned (getPreviousVersion version ndb2) (expiringAt version (db ndb2)) ndb2)
           \<lparr>batch := batch ndb2 @ concat (map (pruneOps (getPreviousVersion version ndb2))
                                            (expiringAt version (db ndb2))),
            latestVersion := version\<rparr>))
   \<and> (version = fst (getLatestVersion ndb2) \<and> expiringAt version (db ndb2) = [] \<longrightarrow>
      DeleteVersion2 version True ndb2
      = (Panic ''Tried to delete latest version'', ndb2\<lparr>latestVersion := version\<rparr>))
   \<and> (version = fst (getLatestVersion ndb) \<longrightarrow>
      DeleteVersion version True ndb
      = (Panic ''Tried to delete latest version'',
         (uncachePruned (getPreviousVersion version ndb) (expiringAt version (db ndb)) ndb)
           \<lparr>batch := batch ndb @ concat (map (pruneOps (getPreviousVersion version ndb))
                                           (expiringAt version (db ndb))),
            latestVersion := version\<rparr>))
   \<and> (version = fst (getLatestVersion ndb) \<and> expiringAt version (db ndb) = [] \<longrightarrow>
      DeleteVersion version True ndb
      = (Panic ''Tried to delete latest version'', ndb\<lparr>latestVersion := version\<rparr>))"
proof (intro conjI impI)
  assume "version = fst (getLatestVersion ndb2)"
  then show "DeleteVersion2 version True ndb2
      = (Panic ''Tried to delete latest version'',
         (uncachePruned (getPreviousVersion version ndb2) (expiringAt version (db ndb2)) ndb2)
           \<lparr>batch := batch ndb2 @ concat (map (pruneOps (getPreviousVersion version ndb2))
                                            (expiringAt version (db ndb2))),
            latestVersion := version\<rparr>)"
    by (simp add: DeleteVersion2_latest deleteOrphans2_eq)
next
  assume "version = fst (getLatestVersion ndb2) \<and> expiringAt version (db ndb2) = []"
  then have "version = fst (getLatestVersion ndb2)" and "expiringAt version (db ndb2) = []"
    by blast+
  then show "DeleteVersion2 version True ndb2
      = (Panic ''Tried to delete latest version'', ndb2\<lparr>latestVersion := version\<rparr>)"
    by (simp add: DeleteVersion2_latest deleteOrphans2_eq)
next
  assume "version = fst (getLatestVersion ndb)"
  then show "DeleteVersion version True ndb
      = (Panic ''Tried to delete latest version'',
         (uncachePruned (getPreviousVersion version ndb) (expiringAt version (db ndb)) ndb)
           \<lparr>batch := batch ndb @ concat (map (pruneOps (getPreviousVersion version ndb))
                                           (expiringAt version (db ndb))),
            latestVersion := version\<rparr>)"
    by (simp add: DeleteVersion_latest deleteOrphans_eq)
next
  assume "version = fst (getLatestVersion ndb) \<and> expiringAt version (db ndb) = []"
  then have "version = fst (getLatestVersion ndb)" and "expiringAt version (db ndb) = []"
    by blast+
  then show "DeleteVersion version True ndb
      = (Panic ''Tried to delete latest version'', ndb\<lparr>latestVersion := version\<rparr>)"
    by (simp add: DeleteVersion_latest deleteOrphans_eq)
qed

theorem DeleteVersion_latest_after_orphans_witness:
  "((1 :: int64) = fst (getLatestVersion rootedStore2) \<and> expiringAt 1 (db rootedStore2) = [])
   \<and> DeleteVersion2 1 True rootedStore2
       = (Panic ''Tried to delete latest version'', rootedStore2\<lparr>latestVersion := 1\<rparr>)"
proof -
  have "(1 :: int64) = fst (getLatestVersion rootedStore2) \<and> expiringAt 1 (db rootedStore2) = []"
    by (simp add: rootedStore2_eq expiringAt_def) (simp add: store_eval)
  with DeleteVersion_latest_after_orphans [where version = 1 and ?ndb2.0 = rootedStore2]
  show ?thesis
    by blast
qed

text \<open>
  C4 as stated fails: the check is not the first step. In \<open>orphanedStore2\<close> version 1 is
  the latest one and an orphan entry with last version 1 is in the backing store
  (written by \<open>SaveOrphans 2\<close> and committed). \<open>DeleteVersion 1 True\<close> panics there with
  two deletions added to the batch, which was empty.
\<close>

theorem DeleteVersion_latest_counterexample:
  "batch orphanedStore2 = []
   \<and> fst (getLatestVersion orphanedStore2) = 1
   \<and> DeleteVersion2 1 True orphanedStore2
       = (Panic ''Tried to delete latest version'',
          orphanedStore2\<lparr>batch := [Delete (orphanKey 1 1 [7]), Delete (nodeKey [7])]\<rparr>)"
  by (simp add: orphanedStore2_eq)
    (simp add: DeleteVersion2_def deleteOrphans2_def traverseOrphansVersion_def
      traversePrefix_def andThen_def deleteRoot_def deleteOrphanEntry_def uncacheNode_def
      store_eval)

section \<open>Getting a node\<close>

text \<open>
  C6 (as amended). \<open>GetNode\<close> panics on the empty hash. With the hash in the cache it
  returns the cached node and moves its element to the back of the queue. Otherwise
  nodeDB2 reads \<open>nodeKey h\<close> from the backing store: it panics with "Value missing for
  hash" when there is no entry and with "Error reading Node" when \<open>MakeNode\<close> fails, and
  else returns the decoded node, a new node of the memory with hash \<open>h\<close> and \<open>persisted\<close>
  set, after \<open>cacheNode\<close> has put that node at the back of the queue and under \<open>h\<close> in
  the map (and evicted the front of the queue when the queue got longer than
  \<open>nodeCacheSize\<close>). nodeDB does the same when \<open>memNodes\<close> has no node for \<open>h\<close>; when it
  has one, that node is returned and cached with its hash set to \<open>h\<close>, the backing store
  is not read, no node is made and \<open>persisted\<close> is not set. \<open>cacheNode\<close> leaves the nodes
  themselves as they are.
\<close>

theorem GetNode_cases:
  fixes ndb2 :: "'a nodeDB2" and ndb :: "'a nodeDB"
  shows
  "GetNode2 MakeNode [] ndb2 = (Panic ''nodeDB.GetNode() requires hash'', ndb2)
   \<and> GetNode MakeNode [] ndb = (Panic ''nodeDB.GetNode() requires hash'', ndb)
   \<and> (h \<noteq> [] \<and> nodeCache ndb2 h = Some elem \<longrightarrow>
        GetNode2 MakeNode h ndb2
        = (Return (snd elem), ndb2\<lparr>nodeCacheQueue := MoveToBack elem (nodeCacheQueue ndb2)\<rparr>))
   \<and> (h \<noteq> [] \<and> nodeCache ndb h = Some elem \<longrightarrow>
        GetNode MakeNode h ndb
        = (Return (snd elem), ndb\<lparr>nodeCacheQueue := MoveToBack elem (nodeCacheQueue ndb)\<rparr>))
   \<and> (elem \<in> set (elems q) \<longrightarrow>
        last (elems (MoveToBack elem q)) = elem
        \<and> set (elems (MoveToBack elem q)) = set (elems q))
   \<and> (h \<noteq> [] \<and> nodeCache ndb2 h = None \<and> db_Get (db ndb2) (nodeKey h) = None \<longrightarrow>
        GetNode2 MakeNode h ndb2 = (Panic ''Value missing for hash'', ndb2))
   \<and> (h \<noteq> [] \<and> nodeCache ndb2 h = None \<and> db_Get (db ndb2) (nodeKey h) = Some buf
        \<and> MakeNode buf (getLeafValueCb ndb2) = Inl err \<longrightarrow>
        GetNode2 MakeNode h ndb2 = (Panic ''Error reading Node'', ndb2))
   \<and> (h \<noteq> [] \<and> nodeCache ndb2 h = None \<and> db_Get (db ndb2) (nodeKey h) = Some buf
        \<and> MakeNode buf (getLeafValueCb ndb2) = Inr node \<longrightarrow>
        GetNode2 MakeNode h ndb2
        = (Return (length (nodes ndb2)),
           snd (cacheNode2 (length (nodes ndb2))
                  (ndb2\<lparr>nodes := nodes ndb2 @ [node\<lparr>hash := Some h, persisted := True\<rparr>]\<rparr>)))
        \<and> nodes (snd (GetNode2 MakeNode h ndb2))
          = nodes ndb2 @ [node\<lparr>hash := Some h, persisted := True\<rparr>])
   \<and> (h \<noteq> [] \<and> nodeCache ndb h = None \<and> memNode h ndb = None
        \<and> db_Get (db ndb) (nodeKey h) = None \<longrightarrow>
        GetNode MakeNode h ndb = (Panic ''Value missing for hash'', ndb))
   \<and> (h \<noteq> [] \<and> nodeCache ndb h = None \<and> memNode h ndb = None
        \<and> db_Get (db ndb) (nodeKey h) = Some buf
        \<and> MakeNode buf (getLeafValueCb ndb) = Inl err \<longrightarrow>
        GetNode MakeNode h ndb = (Panic ''Error reading Node'', ndb))
   \<and> (h \<noteq> [] \<and> nodeCache ndb h = None \<and> memNode h ndb = None
        \<and> db_Get (db ndb) (nodeKey h) = Some buf
        \<and> MakeNode buf (getLeafValueCb ndb) = Inr node \<longrightarrow>
        GetNode MakeNode h ndb
        = (Return (length (nodes ndb)),
           snd (cacheNode (length (nodes ndb))
                  (ndb\<lparr>nodes := nodes ndb @ [node\<lparr>hash := Some h, persisted := True\<rparr>]\<rparr>)))
        \<and> nodes (snd (GetNode MakeNode h ndb))
          = nodes ndb @ [node\<lparr>hash := Some h, persisted := True\<rparr>])
   \<and> (h \<noteq> [] \<and> nodeCache ndb h = None \<and> memNode h ndb = Some p \<longrightarrow>
        GetNode MakeNode h ndb
        = (Return p, snd (cacheNode p (setNode p (\<lambda>n. n\<lparr>hash := Some h\<rparr>) ndb)))
        \<and> nodes (snd (GetNode MakeNode h ndb)) = (nodes ndb)[p := (nodes ndb ! p)\<lparr>hash := Some h\<rparr>])
   \<and> cacheNode2 n ndb2
       = (if nodeCacheSize ndb2 < int (Suc (Len (nodeCacheQueue ndb2)))
          then evictOldest (pushed n ndb2) else (Return (), pushed n ndb2))
   \<and> cacheNode n ndb
       = (if \<not> nodeCacheOnlyFlushOnSave ndb
             \<and> nodeCacheSize ndb < int (Suc (Len (nodeCacheQueue ndb)))
          then evictOldest (pushed n ndb) else (Return (), pushed n ndb))
   \<and> nodeCache (pushed n ndb2) (string_of (hash (nodeAt n ndb2)))
       = Some (allocated (nodeCacheQueue ndb2), n)
   \<and> elems (nodeCacheQueue (pushed n ndb2))
       = elems (nodeCacheQueue ndb2) @ [(allocated (nodeCacheQueue ndb2), n)]
   \<and> nodes (pushed n ndb2) = nodes ndb2
   \<and> nodes (snd (evictOldest ndb2)) = nodes ndb2"
  by (simp add: GetNode2_eq GetNode_eq memNode_def last_MoveToBack set_MoveToBack
      pushed_fields cacheNode2_eq [symmetric] cacheNode_eq [symmetric] setNode_def
      del: of_nat_Suc)

theorem GetNode_cases_witness:
  "([7 :: byte] \<noteq> [] \<and> nodeCache diskStore2 [7] = None
     \<and> db_Get (db diskStore2) (nodeKey [7]) = Some [1]
     \<and> exampleMakeNode [1] (getLeafValueCb diskStore2)
         = Inr \<lparr>hash = None, persisted = False, persistedMem = False, content = ()\<rparr>)
   \<and> fst (GetNode2 exampleMakeNode [7] diskStore2) = Return 0
   \<and> nodes (snd (GetNode2 exampleMakeNode [7] diskStore2))
       = [\<lparr>hash = Some [7], persisted = True, persistedMem = False, content = ()\<rparr>]"
proof -
  let ?n = "\<lparr>hash = None, persisted = False, persistedMem = False, content = ()\<rparr> :: unit Node"
  have hyp: "[7 :: byte] \<noteq> [] \<and> nodeCache diskStore2 [7] = None
     \<and> db_Get (db diskStore2) (nodeKey [7]) = Some [1]
     \<and> exampleMakeNode [1] (getLeafValueCb diskStore2) = Inr ?n"
    by (simp add: diskStore2_def NewNodeDB2_def db_Get_def exampleMakeNode_def)
  have "?n\<lparr>hash := Some [7], persisted := True\<rparr>
        = \<lparr>hash = Some [7], persisted = True, persistedMem = False, content = ()\<rparr>"
    and "nodes diskStore2 = []"
    by (simp_all add: diskStore2_def NewNodeDB2_def)
  with GetNode_cases [where ?ndb2.0 = diskStore2 and h = "[7]" and MakeNode = exampleMakeNode
      and buf = "[1]" and node = ?n] hyp
  show ?thesis
    by (metis append_Nil fst_conv list.size(3))
qed

text \<open>
  C6 as stated fails for nodeDB. In \<open>memTierStore\<close> two nodes were saved to memory only
  (\<open>SaveNode\<close> with \<open>flushToDisk = false\<close>) with a cache of one element: the node with hash
  \<open>[7]\<close>, at address 0, is not in the cache and has no entry in the backing store, yet
  \<open>GetNode\<close> returns it, taken from \<open>memNodes\<close> and not marked persisted.
\<close>

theorem GetNode_cases_counterexample:
  "nodeCache memTierStore [7] = None
   \<and> db_Get (db memTierStore) (nodeKey [7]) = None
   \<and> fst (GetNode exampleMakeNode [7] memTierStore) = Return 0
   \<and> nodeAt 0 (snd (GetNode exampleMakeNode [7] memTierStore))
       = \<lparr>hash = Some [7], persisted = False, persistedMem = True, content = ()\<rparr>"
  by (simp add: memTierStore_eq GetNode_def)
    (simp add: cache_eval db_Get_def)

section \<open>The size of the cache after an insert\<close>

text \<open>
  C8 (as amended). Every insert into the cache is a call of \<open>cacheNode\<close>, which
  \<open>GetNode\<close> on a miss and \<open>SaveNode\<close> make (and \<open>SaveBranch\<close> through \<open>SaveNode\<close>):
  \<open>GetNode\<close> with the node it has found in \<open>memNodes\<close> or decoded, \<open>SaveNode\<close> with the
  node it has written to the batch or to \<open>memNodes\<close>.
  \<open>cacheNode\<close> returns the store \<open>pushed node\<close>, in which the node is the last element of
  the queue and is in the map under its hash, when the longer queue is within
  \<open>nodeCacheSize\<close> (and, in nodeDB, also when \<open>nodeCacheOnlyFlushOnSave\<close> is set, whatever
  the length); otherwise it returns \<open>trimmed 1\<close> of that store, in which the first element
  of the queue, the least recently used one, has left the queue and the entry under the
  hash of its node has left the map. So, in nodeDB2 and in nodeDB when
  \<open>nodeCacheOnlyFlushOnSave\<close> is not set, a queue within the limit \<open>nodeCacheSize\<close> before
  the call is within the limit after it, for \<open>cacheNode\<close>, \<open>GetNode\<close> and \<open>SaveNode\<close>; in a
  consistent cache the map then has at most \<open>nodeCacheSize\<close> entries as well. A new store
  with a non-negative cache size is within the limit. When \<open>nodeCacheOnlyFlushOnSave\<close> is
  set, \<open>cacheNode\<close> of nodeDB evicts nothing and the queue grows by one. (The queue of a
  new store is \<open>queueOK\<close>, and every call of a method keeps it so.)
\<close>

theorem cacheNode_within_limit:
  fixes ndb2 :: "'a nodeDB2" and ndb :: "'a nodeDB"
  shows
  "(cacheWithinLimit ndb2 \<longrightarrow>
      cacheWithinLimit (snd (cacheNode2 node ndb2))
      \<and> cacheWithinLimit (snd (GetNode2 MakeNode h ndb2))
      \<and> cacheWithinLimit (snd (SaveNode2 writeBytes node flushToDisk ndb2)))
   \<and> (cacheWithinLimit ndb \<and> \<not> nodeCacheOnlyFlushOnSave ndb \<longrightarrow>
      cacheWithinLimit (snd (cacheNode node ndb))
      \<and> cacheWithinLimit (snd (GetNode MakeNode h ndb))
      \<and> cacheWithinLimit (snd (SaveNode writeBytes node flushToDisk ndb)))
   \<and> (cacheWithinLimit ndb2 \<and> cacheConsistent ndb2 \<longrightarrow>
      cacheConsistent (snd (cacheNode2 node ndb2))
      \<and> int (card (dom (nodeCache (snd (cacheNode2 node ndb2))))) \<le> nodeCacheSize ndb2)
   \<and> (cacheWithinLimit ndb \<and> cacheConsistent ndb \<and> \<not> nodeCacheOnlyFlushOnSave ndb \<longrightarrow>
      cacheConsistent (snd (cacheNode node ndb))
      \<and> int (card (dom (nodeCache (snd (cacheNode node ndb))))) \<le> nodeCacheSize ndb)
   \<and> cacheNode2 node ndb2
       = (if nodeCacheSize ndb2 < int (Suc (Len (nodeCacheQueue ndb2)))
          then evictOldest (pushed node ndb2) else (Return (), pushed node ndb2))
   \<and> cacheNode node ndb
       = (if \<not> nodeCacheOnlyFlushOnSave ndb
             \<and> nodeCacheSize ndb < int (Suc (Len (nodeCacheQueue ndb)))
          then evictOldest (pushed node ndb) else (Return (), pushed node ndb))
   \<and> GetNode2 MakeNode h ndb2 =
     (if h = [] then (Panic ''nodeDB.GetNode() requires hash'', ndb2)
      else case nodeCache ndb2 h of
        Some elem \<Rightarrow>
          (Return (snd elem), ndb2\<lparr>nodeCacheQueue := MoveToBack elem (nodeCacheQueue ndb2)\<rparr>)
      | None \<Rightarrow>
          (case db_Get (db ndb2) (nodeKey h) of
             None \<Rightarrow> (Panic ''Value missing for hash'', ndb2)
           | Some buf \<Rightarrow>
               (case MakeNode buf (getLeafValueCb ndb2) of
                  Inl err \<Rightarrow> (Panic ''Error reading Node'', ndb2)
                | Inr node \<Rightarrow>
                    (Return (length (nodes ndb2)),
                     snd (cacheNode2 (length (nodes ndb2))
                            (ndb2\<lparr>nodes := nodes ndb2
                                   @ [node\<lparr>hash := Some h, persisted := True\<rparr>]\<rparr>))))))
   \<and> GetNode MakeNode h ndb =
     (if h = [] then (Panic ''nodeDB.GetNode() requires hash'', ndb)
      else case nodeCache ndb h of
        Some elem \<Rightarrow>
          (Return (snd elem), ndb\<lparr>nodeCacheQueue := MoveToBack elem (nodeCacheQueue ndb)\<rparr>)
      | None \<Rightarrow>
          (case (case memNodes ndb of None \<Rightarrow> None | Some m \<Rightarrow> m h) of
             Some node \<Rightarrow>
               (Return node,
                snd (cacheNode node (setNode node (\<lambda>n. n\<lparr>hash := Some h\<rparr>) ndb)))
           | None \<Rightarrow>
               (case db_Get (db ndb) (nodeKey h) of
                  None \<Rightarrow> (Panic ''Value missing for hash'', ndb)
                | Some buf \<Rightarrow>
                    (case MakeNode buf (getLeafValueCb ndb) of
                       Inl err \<Rightarrow> (Panic ''Error reading Node'', ndb)
                     | Inr node \<Rightarrow>
                         (Return (length (nodes ndb)),
                          snd (cacheNode (length (nodes ndb))
                                 (ndb\<lparr>nodes := nodes ndb
                                        @ [node\<lparr>hash := Some h, persisted := True\<rparr>]\<rparr>)))))))
   \<and> SaveNode2 writeBytes node flushToDisk ndb2 =
     (if \<not> isNode node ndb2 then (Panic ''nil pointer dereference'', ndb2)
      else if hash (nodeAt node ndb2) = None
      then (Panic ''Expected to find node.hash, but none found.'', ndb2)
      else if persisted (nodeAt node ndb2)
      then (Panic ''Shouldn't be calling save on an already persisted node.'', ndb2)
      else case writeBytes (nodeAt node ndb2) (getLeafValueCb ndb2 = None) of
        Inl err \<Rightarrow> (Panic err, ndb2)
      | Inr buf \<Rightarrow>
          cacheNode2 node
            (setNode node (\<lambda>n. n\<lparr>persisted := True\<rparr>)
               (ndb2\<lparr>batch := batch ndb2
                       @ [Set (nodeKey (string_of (hash (nodeAt node ndb2)))) buf]\<rparr>)))
   \<and> SaveNode writeBytes node flushToDisk ndb =
     (if \<not> isNode node ndb then (Panic ''nil pointer dereference'', ndb)
      else if hash (nodeAt node ndb) = None
      then (Panic ''Expected to find node.hash, but none found.'', ndb)
      else if persistedMem (nodeAt node ndb) \<and> \<not> flushToDisk then (Return (), ndb)
      else if persisted (nodeAt node ndb)
      then (Panic ''Shouldn't be calling save on an already persisted node.'', ndb)
      else case writeBytes (nodeAt node ndb) (getLeafValueCb ndb = None) of
        Inl err \<Rightarrow> (Panic err, ndb)
      | Inr buf \<Rightarrow>
          if flushToDisk
          then cacheNode node
                 (setNode node (\<lambda>n. n\<lparr>persisted := True\<rparr>)
                    (ndb\<lparr>batch := batch ndb
                            @ [Set (nodeKey (string_of (hash (nodeAt node ndb)))) buf]\<rparr>))
          else case memNodes ndb of
                 None \<Rightarrow> (Panic ''assignment to entry in nil map'',
                          setNode node (\<lambda>n. n\<lparr>persistedMem := True\<rparr>) ndb)
               | Some m \<Rightarrow>
                   cacheNode node
                     ((setNode node (\<lambda>n. n\<lparr>persistedMem := True\<rparr>) ndb)
                        \<lparr>memNodes := Some (m(string_of (hash (nodeAt node ndb)) \<mapsto> node))\<rparr>))
   \<and> (queueOK (nodeCacheQueue ndb2) \<longrightarrow>
      cacheNode2 node ndb2
      = (Return (),
         if nodeCacheSize ndb2 < int (Suc (Len (nodeCacheQueue ndb2)))
         then trimmed 1 (pushed node ndb2) else pushed node ndb2)
      \<and> queueOK (nodeCacheQueue (snd (cacheNode2 node ndb2)))
      \<and> queueOK (nodeCacheQueue (snd (GetNode2 MakeNode h ndb2)))
      \<and> queueOK (nodeCacheQueue (snd (SaveNode2 writeBytes node flushToDisk ndb2))))
   \<and> (queueOK (nodeCacheQueue ndb) \<longrightarrow>
      cacheNode node ndb
      = (Return (),
         if \<not> nodeCacheOnlyFlushOnSave ndb
            \<and> nodeCacheSize ndb < int (Suc (Len (nodeCacheQueue ndb)))
         then trimmed 1 (pushed node ndb) else pushed node ndb)
      \<and> queueOK (nodeCacheQueue (snd (cacheNode node ndb)))
      \<and> queueOK (nodeCacheQueue (snd (GetNode MakeNode h ndb)))
      \<and> queueOK (nodeCacheQueue (snd (SaveNode writeBytes node flushToDisk ndb))))
   \<and> elems (nodeCacheQueue (pushed node ndb))
       = elems (nodeCacheQueue ndb) @ [(allocated (nodeCacheQueue ndb), node)]
   \<and> allocated (nodeCacheQueue (pushed node ndb)) = Suc (allocated (nodeCacheQueue ndb))
   \<and> nodeCache (pushed node ndb)
       = (nodeCache ndb)(string_of (hash (nodeAt node ndb))
                           \<mapsto> (allocated (nodeCacheQueue ndb), node))
   \<and> elems (nodeCacheQueue (trimmed k ndb)) = drop k (elems (nodeCacheQueue ndb))
   \<and> allocated (nodeCacheQueue (trimmed k ndb)) = allocated (nodeCacheQueue ndb)
   \<and> nodeCache (trimmed k ndb)
       = nodeCache ndb |` (- set (map (\<lambda>e. string_of (hash (nodeAt (snd e) ndb)))
                                    (take k (elems (nodeCacheQueue ndb)))))
   \<and> (nodeCacheSize ndb2 < int (Suc (Len (nodeCacheQueue ndb2)))
       \<and> Front (nodeCacheQueue (pushed node ndb2)) = Some oldest \<longrightarrow>
      oldest \<notin> set (elems (nodeCacheQueue (snd (cacheNode2 node ndb2))))
      \<and> nodeCache (snd (cacheNode2 node ndb2)) (string_of (hash (nodeAt (snd oldest) ndb2)))
        = None)
   \<and> (\<not> nodeCacheOnlyFlushOnSave ndb
       \<and> nodeCacheSize ndb < int (Suc (Len (nodeCacheQueue ndb)))
       \<and> Front (nodeCacheQueue (pushed node ndb)) = Some oldest \<longrightarrow>
      oldest \<notin> set (elems (nodeCacheQueue (snd (cacheNode node ndb))))
      \<and> nodeCache (snd (cacheNode node ndb)) (string_of (hash (nodeAt (snd oldest) ndb)))
        = None)
   \<and> (nodeCacheOnlyFlushOnSave ndb \<longrightarrow>
      cacheNode node ndb = (Return (), pushed node ndb)
      \<and> Len (nodeCacheQueue (pushed node ndb)) = Suc (Len (nodeCacheQueue ndb)))
   \<and> (0 \<le> cacheSize \<longrightarrow>
      cacheWithinLimit (NewNodeDB2 d cacheSize cb :: 'a nodeDB2)
      \<and> cacheWithinLimit (NewNodeDB d cacheSize cb :: 'a nodeDB))
   \<and> queueOK (nodeCacheQueue (NewNodeDB2 d cacheSize cb :: 'a nodeDB2))
   \<and> queueOK (nodeCacheQueue (NewNodeDB d cacheSize cb :: 'a nodeDB))
   \<and> queueOK (nodeCacheQueue (NewNodeDB3 d minSize maxSize onlyFlushOnSave cb :: 'a nodeDB))
   \<and> (queueOK (nodeCacheQueue ndb2) \<longrightarrow> queueOK (nodeCacheQueue (exec2 c2 ndb2)))
   \<and> (queueOK (nodeCacheQueue ndb) \<longrightarrow> queueOK (nodeCacheQueue (exec c ndb)))"
proof -
  have c2: "int (card (dom (nodeCache (snd (cacheNode2 node ndb2))))) \<le> nodeCacheSize ndb2"
    if "cacheWithinLimit ndb2" and "cacheConsistent ndb2"
  proof -
    have "cacheConsistent (snd (cacheNode2 node ndb2))"
      using that(2) by (rule cacheNode2_consistent)
    then have "card (dom (nodeCache (snd (cacheNode2 node ndb2))))
               \<le> Len (nodeCacheQueue (snd (cacheNode2 node ndb2)))"
      by (rule card_nodeCache)
    moreover have "int (Len (nodeCacheQueue (snd (cacheNode2 node ndb2)))) \<le> nodeCacheSize ndb2"
      using cacheNode2_within [OF that(1), of node] cacheNode2_bound [of node ndb2]
      by (simp add: cacheWithinLimit_def)
    ultimately show ?thesis
      by simp
  qed
  have c1: "int (card (dom (nodeCache (snd (cacheNode node ndb))))) \<le> nodeCacheSize ndb"
    if "cacheWithinLimit ndb" and "cacheConsistent ndb" and "\<not> nodeCacheOnlyFlushOnSave ndb"
  proof -
    have "cacheConsistent (snd (cacheNode node ndb))"
      using that(2) by (rule cacheNode_consistent)
    then have "card (dom (nodeCache (snd (cacheNode node ndb))))
               \<le> Len (nodeCacheQueue (snd (cacheNode node ndb)))"
      by (rule card_nodeCache)
    moreover have "int (Len (nodeCacheQueue (snd (cacheNode node ndb)))) \<le> nodeCacheSize ndb"
      using cacheNode_within [OF that(1) that(3), of node] cacheNode_bound [of node ndb]
      by (simp add: cacheWithinLimit_def)
    ultimately show ?thesis
      by simp
  qed
  have within2: "cacheWithinLimit ndb2 \<longrightarrow>
      cacheWithinLimit (snd (cacheNode2 node ndb2))
      \<and> cacheWithinLimit (snd (GetNode2 MakeNode h ndb2))
      \<and> cacheWithinLimit (snd (SaveNode2 writeBytes node flushToDisk ndb2))"
    by (simp add: cacheNode2_within GetNode2_within SaveNode2_within)
  have within1: "cacheWithinLimit ndb \<and> \<not> nodeCacheOnlyFlushOnSave ndb \<longrightarrow>
      cacheWithinLimit (snd (cacheNode node ndb))
      \<and> cacheWithinLimit (snd (GetNode MakeNode h ndb))
      \<and> cacheWithinLimit (snd (SaveNode writeBytes node flushToDisk ndb))"
    by (simp add: cacheNode_within GetNode_within SaveNode_within)
  have card2: "cacheWithinLimit ndb2 \<and> cacheConsistent ndb2 \<longrightarrow>
      cacheConsistent (snd (cacheNode2 node ndb2))
      \<and> int (card (dom (nodeCache (snd (cacheNode2 node ndb2))))) \<le> nodeCacheSize ndb2"
    using c2 by (simp add: cacheNode2_consistent)
  have card1: "cacheWithinLimit ndb \<and> cacheConsistent ndb \<and> \<not> nodeCacheOnlyFlushOnSave ndb \<longrightarrow>
      cacheConsistent (snd (cacheNode node ndb))
      \<and> int (card (dom (nodeCache (snd (cacheNode node ndb))))) \<le> nodeCacheSize ndb"
    using c1 by (simp add: cacheNode_consistent)
  have eq2: "cacheNode2 node ndb2
       = (if nodeCacheSize ndb2 < int (Suc (Len (nodeCacheQueue ndb2)))
          then evictOldest (pushed node ndb2) else (Return (), pushed node ndb2))"
    by (rule cacheNode2_eq)
  have eq1: "cacheNode node ndb
       = (if \<not> nodeCacheOnlyFlushOnSave ndb
             \<and> nodeCacheSize ndb < int (Suc (Len (nodeCacheQueue ndb)))
          then evictOldest (pushed node ndb) else (Return (), pushed node ndb))"
    by (rule cacheNode_eq)
  have q2: "queueOK (nodeCacheQueue ndb2) \<longrightarrow>
      cacheNode2 node ndb2
      = (Return (),
         if nodeCacheSize ndb2 < int (Suc (Len (nodeCacheQueue ndb2)))
         then trimmed 1 (pushed node ndb2) else pushed node ndb2)
      \<and> queueOK (nodeCacheQueue (snd (cacheNode2 node ndb2)))
      \<and> queueOK (nodeCacheQueue (snd (GetNode2 MakeNode h ndb2)))
      \<and> queueOK (nodeCacheQueue (snd (SaveNode2 writeBytes node flushToDisk ndb2)))"
    by (intro impI conjI)
      (erule cacheNode2_trimmed queueOK_cacheNode2 queueOK_GetNode2 queueOK_SaveNode2)+
  have q1: "queueOK (nodeCacheQueue ndb) \<longrightarrow>
      cacheNode node ndb
      = (Return (),
         if \<not> nodeCacheOnlyFlushOnSave ndb
            \<and> nodeCacheSize ndb < int (Suc (Len (nodeCacheQueue ndb)))
         then trimmed 1 (pushed node ndb) else pushed node ndb)
      \<and> queueOK (nodeCacheQueue (snd (cacheNode node ndb)))
      \<and> queueOK (nodeCacheQueue (snd (GetNode MakeNode h ndb)))
      \<and> queueOK (nodeCacheQueue (snd (SaveNode writeBytes node flushToDisk ndb)))"
    by (intro impI conjI)
      (erule cacheNode_trimmed queueOK_cacheNode queueOK_GetNode queueOK_SaveNode)+
  have ev2: "nodeCacheSize ndb2 < int (Suc (Len (nodeCacheQueue ndb2)))
       \<and> Front (nodeCacheQueue (pushed node ndb2)) = Some oldest \<longrightarrow>
      oldest \<notin> set (elems (nodeCacheQueue (snd (cacheNode2 node ndb2))))
      \<and> nodeCache (snd (cacheNode2 node ndb2)) (string_of (hash (nodeAt (snd oldest) ndb2)))
        = None"
  proof
    assume a: "nodeCacheSize ndb2 < int (Suc (Len (nodeCacheQueue ndb2)))
       \<and> Front (nodeCacheQueue (pushed node ndb2)) = Some oldest"
    then have "Front (nodeCacheQueue (pushed node ndb2)) = Some oldest"
      by blast
    from evictOldest_front [OF this] a
    show "oldest \<notin> set (elems (nodeCacheQueue (snd (cacheNode2 node ndb2))))
      \<and> nodeCache (snd (cacheNode2 node ndb2)) (string_of (hash (nodeAt (snd oldest) ndb2)))
        = None"
      by (simp add: cacheNode2_eq nodeAt_def del: of_nat_Suc)
  qed
  have ev1: "\<not> nodeCacheOnlyFlushOnSave ndb
       \<and> nodeCacheSize ndb < int (Suc (Len (nodeCacheQueue ndb)))
       \<and> Front (nodeCacheQueue (pushed node ndb)) = Some oldest \<longrightarrow>
      oldest \<notin> set (elems (nodeCacheQueue (snd (cacheNode node ndb))))
      \<and> nodeCache (snd (cacheNode node ndb)) (string_of (hash (nodeAt (snd oldest) ndb)))
        = None"
  proof
    assume a: "\<not> nodeCacheOnlyFlushOnSave ndb
       \<and> nodeCacheSize ndb < int (Suc (Len (nodeCacheQueue ndb)))
       \<and> Front (nodeCacheQueue (pushed node ndb)) = Some oldest"
    then have "Front (nodeCacheQueue (pushed node ndb)) = Some oldest"
      by blast
    from evictOldest_front [OF this] a
    show "oldest \<notin> set (elems (nodeCacheQueue (snd (cacheNode node ndb))))
      \<and> nodeCache (snd (cacheNode node ndb)) (string_of (hash (nodeAt (snd oldest) ndb)))
        = None"
      by (simp add: cacheNode_eq nodeAt_def del: of_nat_Suc)
  qed
  have fl: "nodeCacheOnlyFlushOnSave ndb \<longrightarrow>
      cacheNode node ndb = (Return (), pushed node ndb)
      \<and> Len (nodeCacheQueue (pushed node ndb)) = Suc (Len (nodeCacheQueue ndb))"
    by (simp add: cacheNode_eq pushed_fields)
  have new: "0 \<le> cacheSize \<longrightarrow>
      cacheWithinLimit (NewNodeDB2 d cacheSize cb :: 'a nodeDB2)
      \<and> cacheWithinLimit (NewNodeDB d cacheSize cb :: 'a nodeDB)"
    by (simp add: NewNodeDB_caches)
  note f = pushed_fields(2) [of node ndb] pushed_cache [of node ndb] trimmed_fields [of k ndb]
  have x2: "queueOK (nodeCacheQueue ndb2) \<longrightarrow> queueOK (nodeCacheQueue (exec2 c2 ndb2))"
    by (simp add: exec2_queueOK)
  have x1: "queueOK (nodeCacheQueue ndb) \<longrightarrow> queueOK (nodeCacheQueue (exec c ndb))"
    by (simp add: exec_queueOK)
  show ?thesis
    by (intro conjI)
      (fact within2 within1 card2 card1 eq2 eq1 q2 q1 f ev2 ev1 fl new queueOK_New x2 x1
        GetNode2_eq GetNode_eq SaveNode2_eq SaveNode_eq)+
qed


theorem cacheNode_within_limit_witness:
  "(cacheWithinLimit fullStore \<and> cacheConsistent fullStore
     \<and> \<not> nodeCacheOnlyFlushOnSave fullStore \<and> queueOK (nodeCacheQueue fullStore))
   \<and> elems (nodeCacheQueue fullStore) = [(0, 0)]
   \<and> nodeCacheSize fullStore = 1
   \<and> cacheNode 1 fullStore
       = (Return (),
          fullStore\<lparr>nodeCacheQueue := \<lparr>elems = [(1, 1)], allocated = 2\<rparr>,
                    nodeCache := [[8] \<mapsto> (1, 1)]\<rparr>)
   \<and> cacheWithinLimit (snd (cacheNode 1 fullStore))
   \<and> int (card (dom (nodeCache (snd (cacheNode 1 fullStore))))) \<le> nodeCacheSize fullStore"
proof -
  have hyp: "cacheWithinLimit fullStore \<and> cacheConsistent fullStore
     \<and> \<not> nodeCacheOnlyFlushOnSave fullStore \<and> queueOK (nodeCacheQueue fullStore)"
    by (simp add: fullStore_eq cacheWithinLimit_def cacheConsistent_def queueOK_def NewNodeDB_def
        Len_def nodeAt_def node7_def string_of_def)
  have st: "elems (nodeCacheQueue fullStore) = [(0, 0)]" "nodeCacheSize fullStore = 1"
    by (simp_all add: fullStore_eq NewNodeDB_def)
  have over: "\<not> nodeCacheOnlyFlushOnSave fullStore
              \<and> nodeCacheSize fullStore < int (Suc (Len (nodeCacheQueue fullStore)))"
    by (simp add: fullStore_eq NewNodeDB_def Len_def)
  have tr: "trimmed 1 (pushed 1 fullStore)
            = fullStore\<lparr>nodeCacheQueue := \<lparr>elems = [(1, 1)], allocated = 2\<rparr>,
                        nodeCache := [[8] \<mapsto> (1, 1)]\<rparr>"
    by (simp add: fullStore_eq trimmed_def evictedHashes_def pushed_def PushBack_def Let_def
        NewNodeDB_def nodeAt_def node7_def node8_def string_of_def restrict_map_def fun_upd_def)
      (auto simp: fun_eq_iff)
  from cacheNode_within_limit [where ndb = fullStore and node = 1] hyp
  have "cacheNode 1 fullStore
        = (Return (),
           if \<not> nodeCacheOnlyFlushOnSave fullStore
              \<and> nodeCacheSize fullStore < int (Suc (Len (nodeCacheQueue fullStore)))
           then trimmed 1 (pushed 1 fullStore) else pushed 1 fullStore)"
    and "cacheWithinLimit (snd (cacheNode 1 fullStore))"
    and "int (card (dom (nodeCache (snd (cacheNode 1 fullStore))))) \<le> nodeCacheSize fullStore"
    by blast+
  with hyp st over tr show ?thesis
    by (simp only: if_True) simp
qed

text \<open>
  C8 as stated fails for nodeDB with \<open>nodeCacheOnlyFlushOnSave\<close>: \<open>flushOnSaveStore\<close> is a
  store made by \<open>NewNodeDB3\<close> with cache size 1 and that flag, after two calls of
  \<open>SaveNode\<close>. Its cache holds two nodes.
\<close>

theorem cacheNode_within_limit_counterexample:
  "flushOnSaveStore
   = snd (SaveNode exampleWriteBytes 1 True
            (snd (SaveNode exampleWriteBytes 0 True
                    (snd (newNode node8 (snd (newNode node7 (NewNodeDB3 [] 1 0 True None))))))))
   \<and> nodeCacheSize flushOnSaveStore = 1
   \<and> Len (nodeCacheQueue flushOnSaveStore) = 2
   \<and> dom (nodeCache flushOnSaveStore) = {[7], [8]}"
  by (rule conjI, rule flushOnSaveStore_def)
    (auto simp: flushOnSaveStore_eq NewNodeDB3_def Len_def)

section \<open>Commit\<close>

text \<open>
  C2 (as amended). \<open>Commit\<close> of nodeDB2 applies the operations of the batch, in order, to
  the backing store, installs an empty batch and leaves the cache (map and queue) and the
  nodes as they were. \<open>Commit\<close> of nodeDB applies the batch to the store that created it
  (the backing store, or the memory store after \<open>RestMemBatch\<close>), installs an empty batch
  (the store \<open>written\<close>) and then runs \<open>FlushCache\<close>: the result is \<open>trimmed k\<close> of that
  store, where \<open>k\<close> is the number of elements by which the queue exceeds \<open>nodeCacheSize\<close>,
  0 when it is within the limit. So with the queue within \<open>nodeCacheSize\<close> the cache is
  left as it was; otherwise exactly the \<open>k\<close> least recently used elements leave the queue,
  the entries under the hashes of their nodes leave the map, and the queue is left with
  \<open>nodeCacheSize\<close> elements; nothing is added to the cache. (With a negative
  \<open>nodeCacheSize\<close> the loop empties the queue and then panics on its empty front.)
\<close>

theorem Commit_flushes:
  fixes ndb2 :: "'a nodeDB2" and ndb :: "'a nodeDB"
  shows
  "Commit2 ndb2 = ndb2\<lparr>db := batch_Write (batch ndb2) (db ndb2), batch := []\<rparr>
   \<and> nodeCache (Commit2 ndb2) = nodeCache ndb2
   \<and> nodeCacheQueue (Commit2 ndb2) = nodeCacheQueue ndb2
   \<and> nodes (Commit2 ndb2) = nodes ndb2
   \<and> latestVersion (Commit2 ndb2) = latestVersion ndb2
   \<and> map_of (batch_Write b d) = foldl applyToMap (map_of d) b
   \<and> (queueOK (nodeCacheQueue ndb) \<longrightarrow>
        Commit ndb
        = (if 0 \<le> nodeCacheSize ndb then Return () else Panic ''nil pointer dereference'',
           trimmed (Len (nodeCacheQueue ndb) - nat (nodeCacheSize ndb)) (written ndb))
        \<and> queueOK (nodeCacheQueue (snd (Commit ndb))))
   \<and> (queueOK (nodeCacheQueue ndb) \<and> 0 \<le> nodeCacheSize ndb \<longrightarrow>
        Len (nodeCacheQueue (snd (Commit ndb)))
        = min (Len (nodeCacheQueue ndb)) (nat (nodeCacheSize ndb)))
   \<and> elems (nodeCacheQueue (trimmed k (written ndb))) = drop k (elems (nodeCacheQueue ndb))
   \<and> allocated (nodeCacheQueue (trimmed k (written ndb))) = allocated (nodeCacheQueue ndb)
   \<and> nodeCache (trimmed k (written ndb))
       = nodeCache ndb |` (- set (map (\<lambda>e. string_of (hash (nodeAt (snd e) ndb)))
                                    (take k (elems (nodeCacheQueue ndb)))))
   \<and> nodes (trimmed k (written ndb)) = nodes ndb
   \<and> batch (trimmed k (written ndb)) = []
   \<and> latestVersion (trimmed k (written ndb)) = latestVersion ndb
   \<and> memNodes (trimmed k (written ndb)) = memNodes ndb
   \<and> (batchOf ndb = Disk \<longrightarrow>
        db (trimmed k (written ndb)) = batch_Write (batch ndb) (db ndb)
        \<and> dbMem (trimmed k (written ndb)) = dbMem ndb)
   \<and> (batchOf ndb = Mem \<longrightarrow>
        db (trimmed k (written ndb)) = db ndb
        \<and> dbMem (trimmed k (written ndb)) = map_option (batch_Write (batch ndb)) (dbMem ndb))
   \<and> batch (snd (Commit ndb)) = []
   \<and> nodes (snd (Commit ndb)) = nodes ndb
   \<and> (batchOf ndb = Disk \<longrightarrow>
        db (snd (Commit ndb)) = batch_Write (batch ndb) (db ndb)
        \<and> dbMem (snd (Commit ndb)) = dbMem ndb)
   \<and> (batchOf ndb = Mem \<longrightarrow>
        db (snd (Commit ndb)) = db ndb
        \<and> dbMem (snd (Commit ndb)) = map_option (batch_Write (batch ndb)) (dbMem ndb))
   \<and> (cacheWithinLimit ndb \<longrightarrow>
        fst (Commit ndb) = Return ()
        \<and> nodeCache (snd (Commit ndb)) = nodeCache ndb
        \<and> nodeCacheQueue (snd (Commit ndb)) = nodeCacheQueue ndb)
   \<and> (\<not> cacheWithinLimit ndb \<and> Front (nodeCacheQueue ndb) = Some oldest \<longrightarrow>
        oldest \<notin> set (elems (nodeCacheQueue (snd (Commit ndb))))
        \<and> nodeCache (snd (Commit ndb)) (string_of (hash (nodeAt (snd oldest) ndb))) = None)
   \<and> set (elems (nodeCacheQueue (snd (Commit ndb)))) \<subseteq> set (elems (nodeCacheQueue ndb))
   \<and> nodeCache (snd (Commit ndb)) \<subseteq>\<^sub>m nodeCache ndb
   \<and> (fst (Commit ndb) = Return () \<longrightarrow> cacheWithinLimit (snd (Commit ndb)))
   \<and> (0 \<le> nodeCacheSize ndb \<longrightarrow> fst (Commit ndb) = Return ())"
proof -
  have two: "Commit2 ndb2 = ndb2\<lparr>db := batch_Write (batch ndb2) (db ndb2), batch := []\<rparr>"
    "nodeCache (Commit2 ndb2) = nodeCache ndb2"
    "nodeCacheQueue (Commit2 ndb2) = nodeCacheQueue ndb2"
    "nodes (Commit2 ndb2) = nodes ndb2"
    "latestVersion (Commit2 ndb2) = latestVersion ndb2"
    by (simp_all add: Commit2_def)
  have wr: "map_of (batch_Write b d) = foldl applyToMap (map_of d) b"
    by (rule map_of_batch_Write)
  have closed: "queueOK (nodeCacheQueue ndb) \<longrightarrow>
        Commit ndb
        = (if 0 \<le> nodeCacheSize ndb then Return () else Panic ''nil pointer dereference'',
           trimmed (Len (nodeCacheQueue ndb) - nat (nodeCacheSize ndb)) (written ndb))
        \<and> queueOK (nodeCacheQueue (snd (Commit ndb)))"
  proof (intro impI conjI)
    assume ok: "queueOK (nodeCacheQueue ndb)"
    then show c: "Commit ndb
        = (if 0 \<le> nodeCacheSize ndb then Return () else Panic ''nil pointer dereference'',
           trimmed (Len (nodeCacheQueue ndb) - nat (nodeCacheSize ndb)) (written ndb))"
      by (rule Commit_trimmed)
    have "queueOK (nodeCacheQueue (written ndb))"
      using ok by simp
    then have "queueOK (nodeCacheQueue
                 (trimmed (Len (nodeCacheQueue ndb) - nat (nodeCacheSize ndb)) (written ndb)))"
      by (rule queueOK_trimmed)
    then show "queueOK (nodeCacheQueue (snd (Commit ndb)))"
      unfolding c by simp
  qed
  have len: "queueOK (nodeCacheQueue ndb) \<and> 0 \<le> nodeCacheSize ndb \<longrightarrow>
        Len (nodeCacheQueue (snd (Commit ndb)))
        = min (Len (nodeCacheQueue ndb)) (nat (nodeCacheSize ndb))"
  proof
    assume "queueOK (nodeCacheQueue ndb) \<and> 0 \<le> nodeCacheSize ndb"
    then have "queueOK (nodeCacheQueue ndb)"
      by blast
    then show "Len (nodeCacheQueue (snd (Commit ndb)))
        = min (Len (nodeCacheQueue ndb)) (nat (nodeCacheSize ndb))"
      by (simp add: Commit_trimmed)
  qed
  have tf: "elems (nodeCacheQueue (trimmed k (written ndb))) = drop k (elems (nodeCacheQueue ndb))"
    "allocated (nodeCacheQueue (trimmed k (written ndb))) = allocated (nodeCacheQueue ndb)"
    "nodeCache (trimmed k (written ndb))
       = nodeCache ndb |` (- set (map (\<lambda>e. string_of (hash (nodeAt (snd e) ndb)))
                                    (take k (elems (nodeCacheQueue ndb)))))"
    "nodes (trimmed k (written ndb)) = nodes ndb"
    "batch (trimmed k (written ndb)) = []"
    "latestVersion (trimmed k (written ndb)) = latestVersion ndb"
    "memNodes (trimmed k (written ndb)) = memNodes ndb"
    by (simp_all add: trimmed_fields nodeAt_def) (simp_all add: trimmed_def written_def split: store.splits)
  have tdisk: "batchOf ndb = Disk \<longrightarrow>
        db (trimmed k (written ndb)) = batch_Write (batch ndb) (db ndb)
        \<and> dbMem (trimmed k (written ndb)) = dbMem ndb"
    by (simp add: trimmed_def written_def)
  have tmem: "batchOf ndb = Mem \<longrightarrow>
        db (trimmed k (written ndb)) = db ndb
        \<and> dbMem (trimmed k (written ndb)) = map_option (batch_Write (batch ndb)) (dbMem ndb)"
    by (simp add: trimmed_def written_def)
  have shrinks:
    "set (elems (nodeCacheQueue (snd (Commit ndb)))) \<subseteq> set (elems (nodeCacheQueue ndb))"
    "nodeCache (snd (Commit ndb)) \<subseteq>\<^sub>m nodeCache ndb"
    "db (snd (Commit ndb)) = db (written ndb)"
    "dbMem (snd (Commit ndb)) = dbMem (written ndb)"
    "batch (snd (Commit ndb)) = []"
    "fst (Commit ndb) = Return () \<longrightarrow> cacheWithinLimit (snd (Commit ndb))"
    "0 \<le> nodeCacheSize ndb \<longrightarrow> fst (Commit ndb) = Return ()"
    using FlushCache_shrinks [of "written ndb"] by (simp_all add: Commit_written)
  have nd: "nodes (snd (Commit ndb)) = nodes ndb"
    by (simp add: Commit_written FlushCache_nodes)
  have disk: "batchOf ndb = Disk \<longrightarrow>
        db (snd (Commit ndb)) = batch_Write (batch ndb) (db ndb)
        \<and> dbMem (snd (Commit ndb)) = dbMem ndb"
    using shrinks(3,4) by (simp add: written_store)
  have mem: "batchOf ndb = Mem \<longrightarrow>
        db (snd (Commit ndb)) = db ndb
        \<and> dbMem (snd (Commit ndb)) = map_option (batch_Write (batch ndb)) (dbMem ndb)"
    using shrinks(3,4) by (simp add: written_store)
  have unchanged: "cacheWithinLimit ndb \<longrightarrow>
        fst (Commit ndb) = Return ()
        \<and> nodeCache (snd (Commit ndb)) = nodeCache ndb
        \<and> nodeCacheQueue (snd (Commit ndb)) = nodeCacheQueue ndb"
    by (simp add: Commit_written FlushCache_within)
  have front: "\<not> cacheWithinLimit ndb \<and> Front (nodeCacheQueue ndb) = Some oldest \<longrightarrow>
        oldest \<notin> set (elems (nodeCacheQueue (snd (Commit ndb))))
        \<and> nodeCache (snd (Commit ndb)) (string_of (hash (nodeAt (snd oldest) ndb))) = None"
  proof
    assume "\<not> cacheWithinLimit ndb \<and> Front (nodeCacheQueue ndb) = Some oldest"
    then have "\<not> cacheWithinLimit (written ndb)"
      and "Front (nodeCacheQueue (written ndb)) = Some oldest"
      by simp_all
    from FlushCache_front [OF this]
    show "oldest \<notin> set (elems (nodeCacheQueue (snd (Commit ndb))))
        \<and> nodeCache (snd (Commit ndb)) (string_of (hash (nodeAt (snd oldest) ndb))) = None"
      by (simp add: Commit_written nodeAt_def)
  qed
  show ?thesis
    by (intro conjI)
      (fact two wr closed len tf tdisk tmem shrinks(1,2,5,6,7) nd disk mem unchanged front)+
qed


theorem Commit_flushes_witness:
  "(queueOK (nodeCacheQueue fourCachedStore) \<and> 0 \<le> nodeCacheSize fourCachedStore
     \<and> batchOf fourCachedStore = Disk)
   \<and> elems (nodeCacheQueue fourCachedStore) = [(0, 0), (1, 1), (2, 2), (3, 3)]
   \<and> nodeCache fourCachedStore = [[5] \<mapsto> (0, 0), [6] \<mapsto> (1, 1), [7] \<mapsto> (2, 2), [8] \<mapsto> (3, 3)]
   \<and> nodeCacheSize fourCachedStore = 2
   \<and> fst (Commit fourCachedStore) = Return ()
   \<and> elems (nodeCacheQueue (snd (Commit fourCachedStore))) = [(2, 2), (3, 3)]
   \<and> nodeCache (snd (Commit fourCachedStore)) = [[7] \<mapsto> (2, 2), [8] \<mapsto> (3, 3)]
   \<and> db (snd (Commit fourCachedStore))
       = batch_Write (batch fourCachedStore) (db fourCachedStore)
   \<and> batch (snd (Commit fourCachedStore)) = []"
proof -
  have hyp: "queueOK (nodeCacheQueue fourCachedStore) \<and> 0 \<le> nodeCacheSize fourCachedStore
     \<and> batchOf fourCachedStore = Disk"
    by (simp add: fourCachedStore_eq queueOK_def NewNodeDB3_def)
  have st: "elems (nodeCacheQueue fourCachedStore) = [(0, 0), (1, 1), (2, 2), (3, 3)]"
    "nodeCache fourCachedStore = [[5] \<mapsto> (0, 0), [6] \<mapsto> (1, 1), [7] \<mapsto> (2, 2), [8] \<mapsto> (3, 3)]"
    "nodeCacheSize fourCachedStore = 2"
    "Len (nodeCacheQueue fourCachedStore) - nat (nodeCacheSize fourCachedStore) = 2"
    by (simp_all add: fourCachedStore_eq NewNodeDB3_def Len_def)
  have hs: "map (\<lambda>e. string_of (hash (nodeAt (snd e) fourCachedStore)))
              (take 2 (elems (nodeCacheQueue fourCachedStore))) = [[5], [6]]"
    by (simp add: fourCachedStore_eq nodeAt_def node5_def node6_def string_of_def)
  have m: "[[5 :: byte] \<mapsto> (0 :: nat, 0 :: nat), [6] \<mapsto> (1, 1), [7] \<mapsto> (2, 2), [8] \<mapsto> (3, 3)]
             |` (- set [[5], [6]])
           = [[7] \<mapsto> (2, 2), [8] \<mapsto> (3, 3)]"
    by (auto simp: fun_eq_iff restrict_map_def)
  from Commit_flushes [where ndb = fourCachedStore and k = 2] hyp
  have c: "Commit fourCachedStore
        = (if 0 \<le> nodeCacheSize fourCachedStore then Return ()
           else Panic ''nil pointer dereference'',
           trimmed (Len (nodeCacheQueue fourCachedStore) - nat (nodeCacheSize fourCachedStore))
             (written fourCachedStore))"
    and t: "elems (nodeCacheQueue (trimmed 2 (written fourCachedStore)))
            = drop 2 (elems (nodeCacheQueue fourCachedStore))"
      "nodeCache (trimmed 2 (written fourCachedStore))
       = nodeCache fourCachedStore
           |` (- set (map (\<lambda>e. string_of (hash (nodeAt (snd e) fourCachedStore)))
                        (take 2 (elems (nodeCacheQueue fourCachedStore)))))"
      "db (trimmed 2 (written fourCachedStore))
       = batch_Write (batch fourCachedStore) (db fourCachedStore)"
      "batch (trimmed 2 (written fourCachedStore)) = []"
    by blast+
  have "fst (Commit fourCachedStore) = Return ()"
    and "snd (Commit fourCachedStore) = trimmed 2 (written fourCachedStore)"
    using c hyp st(4) by simp_all
  with hyp st(1-3) t hs m show ?thesis
    by simp
qed

text \<open>
  C2 as stated fails for nodeDB: \<open>Commit\<close> on \<open>flushOnSaveStore\<close> (two cached nodes, cache
  size 1, \<open>nodeCacheOnlyFlushOnSave\<close> set) returns with the node of hash \<open>[7]\<close>, which is at
  address 0, gone from the cache.
\<close>

theorem Commit_flushes_counterexample:
  "nodeCache flushOnSaveStore [7] = Some (0, 0)
   \<and> hash (nodeAt 0 flushOnSaveStore) = Some [7]
   \<and> fst (Commit flushOnSaveStore) = Return ()
   \<and> nodeCache (snd (Commit flushOnSaveStore)) [7] = None"
proof -
  let ?oldest = "(0, 0) :: Element"
  have a: "nodeCache flushOnSaveStore [7] = Some ?oldest"
    "hash (nodeAt 0 flushOnSaveStore) = Some [7]"
    by (simp_all add: flushOnSaveStore_eq nodeAt_def node7_def)
  have "\<not> cacheWithinLimit (written flushOnSaveStore)"
    by (simp add: cacheWithinLimit_def flushOnSaveStore_eq NewNodeDB3_def Len_def)
  moreover have "Front (nodeCacheQueue (written flushOnSaveStore)) = Some ?oldest"
    by (simp add: flushOnSaveStore_eq Front_def)
  ultimately have "nodeCache (snd (FlushCache (written flushOnSaveStore)))
                     (string_of (hash (nodeAt (snd ?oldest) (written flushOnSaveStore)))) = None"
    using FlushCache_front [of "written flushOnSaveStore" ?oldest] by blast
  then have b: "nodeCache (snd (Commit flushOnSaveStore)) [7] = None"
    using a(2) by (simp add: Commit_written string_of_def nodeAt_def)
  have "0 \<le> nodeCacheSize (written flushOnSaveStore)"
    by (simp add: flushOnSaveStore_eq NewNodeDB3_def)
  then have c: "fst (Commit flushOnSaveStore) = Return ()"
    using FlushCache_shrinks [of "written flushOnSaveStore"] by (simp add: Commit_written)
  from a b c show ?thesis
    by simp
qed

end
